theory Spec2Isabelle
  imports Main
begin

section \<open>JavaScript values and errors\<close>

text \<open>
  The controller class \<open>CaLINEdarDateInput\<close> (src/src/caLINEdarDateInput.js) is
  embedded function by function. An exception of the source is a value of
  \<open>js_error\<close>; a function that may throw returns \<open>js_error + 'a\<close>.
\<close>

datatype js_error =
    TypeError    \<comment> \<open>a property read on \<open>null\<close> or \<open>undefined\<close>\<close>
  | IllTyped     \<comment> \<open>a value of another shape than the typed model covers\<close>

text \<open>A JavaScript number that is an integer, or \<open>NaN\<close>.\<close>

datatype jsnum = Num int | NaN

definition bindE :: "'e + 'a \<Rightarrow> ('a \<Rightarrow> 'e + 'b) \<Rightarrow> 'e + 'b" where
  "bindE r f = (case r of Inl e \<Rightarrow> Inl e | Inr v \<Rightarrow> f v)"

text \<open>\<open>Array.prototype.findIndex\<close>: the first index whose element satisfies the
  predicate, \<open>-1\<close> when there is none.\<close>

fun findIndex :: "('a \<Rightarrow> bool) \<Rightarrow> 'a list \<Rightarrow> int" where
  "findIndex P [] = -1"
| "findIndex P (x # xs) =
     (if P x then 0
      else (let r = findIndex P xs in if r < 0 then -1 else r + 1))"

text \<open>\<open>xs[i]\<close>: \<open>None\<close> is \<open>undefined\<close>, read outside the array.\<close>

definition js_nth :: "'a list \<Rightarrow> int \<Rightarrow> 'a option" where
  "js_nth xs i = (if 0 \<le> i \<and> i < int (length xs) then Some (xs ! nat i) else None)"

section \<open>The platform: JSON and Date\<close>

datatype json =
    JNull
  | JNum int
  | JBool bool
  | JStr string
  | JArr "json list"
  | JObj "(string \<times> json) list"

text \<open>
  The functions of the JavaScript platform the controller calls and this theory does
  not define: \<open>JSON.stringify\<close>, \<open>JSON.parse\<close> (\<open>None\<close> when it throws a
  SyntaxError), \<open>parseInt\<close>, and the offset of the local time zone from UTC in
  milliseconds (a zone without daylight saving).
\<close>

record platform =
  JSON_stringify :: "json \<Rightarrow> string"
  JSON_parse :: "string \<Rightarrow> json option"
  parseInt :: "string \<Rightarrow> jsnum"
  LocalTZA :: int

text \<open>Reading a property of a parsed value: a TypeError on \<open>null\<close>, \<open>None\<close>
  (\<open>undefined\<close>) where the property is absent. A later duplicate key wins.\<close>

fun get_prop :: "json \<Rightarrow> string \<Rightarrow> js_error + json option" where
  "get_prop JNull k = Inl TypeError"
| "get_prop (JObj kvs) k = Inr (map_of (rev kvs) k)"
| "get_prop v k = Inr None"

definition get_int :: "json \<Rightarrow> string \<Rightarrow> js_error + int" where
  "get_int v k =
     bindE (get_prop v k) (\<lambda>r. case r of Some (JNum n) \<Rightarrow> Inr n | _ \<Rightarrow> Inl IllTyped)"

text \<open>The \<open>years\<close> property is only used through \<open>years.length\<close>, which throws on
  \<open>undefined\<close> and \<open>null\<close>.\<close>

definition get_array :: "json \<Rightarrow> string \<Rightarrow> js_error + json list" where
  "get_array v k =
     bindE (get_prop v k)
       (\<lambda>r. case r of
              Some (JArr xs) \<Rightarrow> Inr xs
            | None \<Rightarrow> Inl TypeError
            | Some JNull \<Rightarrow> Inl TypeError
            | _ \<Rightarrow> Inl IllTyped)"

subsection \<open>Date\<close>

text \<open>
  A \<open>Date\<close> object is its time value: milliseconds since the epoch, or \<open>None\<close> for
  an invalid date (time value \<open>NaN\<close>). The civil calendar is the proleptic Gregorian
  one of ECMAScript. The day number of a civil date counts the days of its era (400
  years, 146097 days, starting on 1 March), and the civil date of a day number
  splits the day of the era into centuries, cycles of 4 years, years and the day of
  the year.
\<close>

type_synonym jsdate = "int option"

definition msPerDay :: int where
  "msPerDay = 86400000"

definition days_from_civil :: "int \<Rightarrow> int \<Rightarrow> int \<Rightarrow> int" where
  "days_from_civil y0 m d =
     (let y = (if m \<le> 2 then y0 - 1 else y0);
          era = y div 400;
          yoe = y - era * 400;
          doy = (153 * (if m > 2 then m - 3 else m + 9) + 2) div 5 + d - 1;
          doe = yoe * 365 + yoe div 4 - yoe div 100 + doy
      in era * 146097 + doe - 719468)"

definition civil_from_days :: "int \<Rightarrow> int \<times> int \<times> int" where
  "civil_from_days z0 =
     (let z = z0 + 719468;
          era = z div 146097;
          doe = z - era * 146097;
          n100 = min 3 (doe div 36524);
          d2 = doe - n100 * 36524;
          n4 = d2 div 1461;
          d3 = d2 - n4 * 1461;
          n1 = min 3 (d3 div 365);
          doy = d3 - n1 * 365;
          yoe = n100 * 100 + n4 * 4 + n1;
          y = yoe + era * 400;
          mp = (5 * doy + 2) div 153;
          d = doy - (153 * mp + 2) div 5 + 1;
          m = (if mp < 10 then mp + 3 else mp - 9)
      in (if m \<le> 2 then y + 1 else y, m, d))"

text \<open>\<open>TimeClip\<close>: a time value beyond 8.64e15 ms is \<open>NaN\<close>.\<close>

definition TimeClip :: "int \<Rightarrow> jsdate" where
  "TimeClip t = (if \<bar>t\<bar> > 8640000000000000 then None else Some t)"

text \<open>\<open>new Date(ms)\<close> for an integer number of milliseconds.\<close>

definition new_Date_ms :: "int \<Rightarrow> jsdate" where
  "new_Date_ms ms = TimeClip ms"

text \<open>\<open>getFullYear()\<close>, \<open>getMonth()\<close> (0 for January), \<open>getDate()\<close>: the fields of
  the local time, \<open>NaN\<close> on an invalid date.\<close>

definition Date_getFullYear :: "platform \<Rightarrow> jsdate \<Rightarrow> jsnum" where
  "Date_getFullYear p d =
     (case d of None \<Rightarrow> NaN
      | Some t \<Rightarrow> (case civil_from_days ((t + LocalTZA p) div msPerDay) of (y, m, dd) \<Rightarrow> Num y))"

definition Date_getMonth :: "platform \<Rightarrow> jsdate \<Rightarrow> jsnum" where
  "Date_getMonth p d =
     (case d of None \<Rightarrow> NaN
      | Some t \<Rightarrow> (case civil_from_days ((t + LocalTZA p) div msPerDay) of (y, m, dd) \<Rightarrow> Num (m - 1)))"

definition Date_getDate :: "platform \<Rightarrow> jsdate \<Rightarrow> jsnum" where
  "Date_getDate p d =
     (case d of None \<Rightarrow> NaN
      | Some t \<Rightarrow> (case civil_from_days ((t + LocalTZA p) div msPerDay) of (y, m, dd) \<Rightarrow> Num dd))"

text \<open>\<open>MakeDay(year, month, date)\<close> with \<open>month\<close> counted from 0: months beyond a
  year carry into the year, days beyond a month into the next months.\<close>

definition MakeDay :: "int \<Rightarrow> int \<Rightarrow> int \<Rightarrow> int" where
  "MakeDay yr m dt = days_from_civil (yr + m div 12) (m mod 12 + 1) 1 + dt - 1"

text \<open>
  \<open>new Date(year, month, date)\<close>: local midnight of the civil date. As ECMAScript
  prescribes, a year from 0 to 99 stands for 1900 + year.
\<close>

definition new_Date_ymd :: "platform \<Rightarrow> jsnum \<Rightarrow> jsnum \<Rightarrow> jsnum \<Rightarrow> jsdate" where
  "new_Date_ymd p year month date =
     (case (year, month, date) of
        (Num y, Num m, Num dt) \<Rightarrow>
          (let yr = (if 0 \<le> y \<and> y \<le> 99 then 1900 + y else y)
           in TimeClip (MakeDay yr m dt * msPerDay - LocalTZA p))
      | _ \<Rightarrow> None)"

text \<open>\<open>Math.floor(d.getTime() / 1000)\<close>.\<close>

definition Date_getTime_seconds :: "jsdate \<Rightarrow> jsnum" where
  "Date_getTime_seconds d = (case d of None \<Rightarrow> NaN | Some t \<Rightarrow> Num (t div 1000))"

section \<open>The calendar, an external collaborator\<close>

text \<open>
  The class \<open>CaLINEdarCalender\<close> that a user extends is not among the sources; the
  controller is verified for every calendar. A calendar is the record of its methods.
\<close>

record month_obj =
  mvalue :: int
  mtext :: string

record day_obj =
  dvalue :: int
  dtext :: string

record year_month =
  ym_year :: int
  ym_month :: int

text \<open>
  A local date as the controller reads and tags it. \<open>ld_holiday\<close> is the property
  \<open>holiday\<close> of the date, a boolean, or \<open>None\<close> when the calendar leaves it
  \<open>undefined\<close>; \<open>ld_grayOut\<close> holds the truthiness of \<open>grayOut\<close>. The four display
  tags are \<open>None\<close> while they are \<open>undefined\<close>, as they are until
  \<open>_getLocalDatesToDisplay\<close> sets them; \<open>picked\<close> is set to a boolean or to
  \<open>null\<close>.
\<close>

record local_date =
  ld_year :: int
  ld_month :: int
  ld_date :: int
  ld_day :: int
  ld_holiday :: "bool option"
  ld_grayOut :: bool
  ld_special :: "bool option"
  ld_picked :: "json option"
  ld_text :: "string option"
  ld_value :: "string option"

record js_ymd =
  js_year :: int
  js_month :: int
  js_date :: int

record date_format =
  fmt_year_text :: string
  fmt_year_pos :: int
  fmt_month_text :: string
  fmt_month_pos :: int

text \<open>What \<open>getDates\<close> may return: \<open>undefined\<close>, \<open>null\<close> or an array of dates.\<close>

datatype dates_result = DUndefined | DNull | DArray "local_date list"

text \<open>
  \<open>getDates\<close> takes, before the year and the month, the number of calls made to it
  so far: a calendar need not answer the same question twice the same way.
  \<open>isDateInCalendar(year, month)\<close> has an optional month.
\<close>

record calendar =
  getMonths :: "int \<Rightarrow> month_obj list"
  getDays :: "day_obj list"
  getDates :: "nat \<Rightarrow> int \<Rightarrow> int \<Rightarrow> dates_result"
  isDateInCalendar :: "jsnum \<Rightarrow> int option \<Rightarrow> bool"
  convertJSDate2LocalDate :: "jsnum \<Rightarrow> jsnum \<Rightarrow> jsnum \<Rightarrow> local_date option"
  convertLocalDate2JSDate :: "int \<Rightarrow> int \<Rightarrow> int \<Rightarrow> js_ymd option"
  toLocaleDateString :: "jsdate \<Rightarrow> string"
  getDateStringPlaceholder :: string
  getDateStringFormat :: "int \<Rightarrow> int \<Rightarrow> date_format"
  getNow :: local_date

text \<open>The constants of the \<open>caLINEdar\<close> object the controller reads.\<close>

record caLINEdar =
  MAX_COUNT_YEAR_IN_YEAR_PICKER :: int
  MAX_COUNT_DATES_IN_DATE_PICKER :: int
  ID_DATE_PICKER :: string
  ID_MONTH_PICKER :: string
  ID_YEAR_PICKER :: string

section \<open>The state of a date input\<close>

text \<open>
  Date objects are mutable and shared by reference, so they live in a store: an
  address is an index into \<open>heap\<close>, and a new object goes to its end. An array of
  the source is the list of the addresses of its elements (\<open>None\<close> for a \<open>null\<close>
  element); the controller changes no array it did not create.
\<close>

type_synonym addr = nat

datatype dates_val = VUndefined | VNull | VArr "addr list"

text \<open>Modelled from the spec: \<open>caLINEdar.isInt\<close> is not among the sources; it is
  taken to hold exactly of the integers, as the documentation of \<open>setDate\<close> (a
  \<open>Date\<close> or an integer unix time) has it. So \<open>setDate\<close> is called with a
  \<open>Date\<close>, an integer, or anything else.\<close>

datatype date_arg = ADate jsdate | AInt int | AOther

record picker_btn =
  pb_text :: string
  pb_value :: string

record date_picker_params =
  dp_dates :: "addr option list"
  dp_value :: string
  dp_pickerBtns :: "picker_btn list"
  dp_weekHeaders :: "string list"
  dp_noMoreLeft :: bool
  dp_noMoreRight :: bool
  dp_rtl :: bool

record month_cell =
  mc_text :: string
  mc_value :: string

record month_picker_params =
  mp_value :: string
  mp_months :: "month_cell list"
  mp_pickerBtns :: "picker_btn list"
  mp_rtl :: bool
  mp_noMoreLeft :: bool
  mp_noMoreRight :: bool

record year_cell =
  yc_text :: int
  yc_value :: int

record year_picker_params =
  yp_value :: string
  yp_years :: "year_cell list"
  yp_noMoreLeft :: bool
  yp_noMoreRight :: bool
  yp_rtl :: bool

text \<open>The requests the controller sends to the rendering layer, in order.\<close>

datatype render =
    OpenCalendar date_picker_params
  | ShowDatePicker date_picker_params
  | ShowMonthPicker month_picker_params
  | ShowYearPicker year_picker_params
  | CloseCalendar
  | RequestOpen

text \<open>
  The fields of a \<open>CaLINEdarDateInput\<close>. \<open>unixDate\<close> and \<open>localDate\<close> are \<open>None\<close>
  for \<open>null\<close>; \<open>events\<close> is the queue of the \<open>onChange\<close> handlers, a handler being
  known by a number; \<open>warnings\<close> are the arguments of the \<open>console.warn\<close> calls,
  \<open>rendered\<close> the requests to the rendering layer, \<open>notified\<close> the handlers
  scheduled by \<open>_notify\<close>; \<open>getDatesCalls\<close> counts the calls of
  \<open>calendar.getDates\<close>.
\<close>

record date_input =
  unixDate :: "jsdate option"
  localDate :: "local_date option"
  input_value :: string
  rtl :: bool
  events :: "nat list"
  datesCache :: "int \<times> int \<Rightarrow> dates_val option"
  heap :: "local_date list"
  getDatesCalls :: nat
  warnings :: "date_arg list"
  rendered :: "render list"
  notified :: "nat list list"

section \<open>Adjacent months\<close>

text \<open>\<open>_calcPrevLocalMonth(year, month, months)\<close>. Reading \<open>.value\<close> of an
  element that is not there is the TypeError of the source.\<close>

definition calcPrevLocalMonth :: "int \<Rightarrow> int \<Rightarrow> month_obj list \<Rightarrow> js_error + year_month" where
  "calcPrevLocalMonth year month months =
     (let currMonthIdx = findIndex (\<lambda>m. mvalue m = month) months in
      if currMonthIdx = 0 then
        (case js_nth months (int (length months) - 1) of
           None \<Rightarrow> Inl TypeError
         | Some m \<Rightarrow> Inr \<lparr>ym_year = year - 1, ym_month = mvalue m\<rparr>)
      else
        (case js_nth months (currMonthIdx - 1) of
           None \<Rightarrow> Inl TypeError
         | Some m \<Rightarrow> Inr \<lparr>ym_year = year, ym_month = mvalue m\<rparr>))"

text \<open>\<open>_calcNextLocalMonth(year, month, months)\<close>.\<close>

definition calcNextLocalMonth :: "int \<Rightarrow> int \<Rightarrow> month_obj list \<Rightarrow> js_error + year_month" where
  "calcNextLocalMonth year month months =
     (let currMonthIdx = findIndex (\<lambda>m. mvalue m = month) months in
      if currMonthIdx = int (length months) - 1 then
        (case js_nth months 0 of
           None \<Rightarrow> Inl TypeError
         | Some m \<Rightarrow> Inr \<lparr>ym_year = year + 1, ym_month = mvalue m\<rparr>)
      else
        (case js_nth months (currMonthIdx + 1) of
           None \<Rightarrow> Inl TypeError
         | Some m \<Rightarrow> Inr \<lparr>ym_year = year, ym_month = mvalue m\<rparr>))"

section \<open>Serialised values\<close>

definition serializeValue :: "platform \<Rightarrow> json \<Rightarrow> string" where
  "serializeValue p v = JSON_stringify p v"

text \<open>\<open>_unserializeValue(valueStr)\<close>: the \<open>catch\<close> turns a SyntaxError into
  \<open>null\<close>. An attribute that is not there is \<open>null\<close>, which \<open>JSON.parse\<close> reads as
  the text \<open>null\<close>.\<close>

definition unserializeValue :: "platform \<Rightarrow> string option \<Rightarrow> json" where
  "unserializeValue p valueStr =
     (case valueStr of
        None \<Rightarrow> JNull
      | Some str \<Rightarrow> (case JSON_parse p str of None \<Rightarrow> JNull | Some v \<Rightarrow> v))"

text \<open>The decimal text of an integer, as \<open>"" + d.date\<close> gives it.\<close>

fun show_nat :: "nat \<Rightarrow> string" where
  "show_nat n =
     (if n < 10 then [char_of (48 + n)]
      else show_nat (n div 10) @ [char_of (48 + n mod 10)])"

definition show_int :: "int \<Rightarrow> string" where
  "show_int i = (if i < 0 then CHR ''-'' # show_nat (nat (- i)) else show_nat (nat i))"

definition json_of_option :: "string \<Rightarrow> ('a \<Rightarrow> json) \<Rightarrow> 'a option \<Rightarrow> (string \<times> json) list" where
  "json_of_option k f v = (case v of None \<Rightarrow> [] | Some x \<Rightarrow> [(k, f x)])"

text \<open>What \<open>JSON.stringify\<close> is given for a date: the properties of the calendar's
  object, taken in the order year, month, date, day, holiday, and then those the
  controller has added; a property that is \<open>undefined\<close> is left out.\<close>

definition json_of_local_date :: "local_date \<Rightarrow> json" where
  "json_of_local_date d =
     JObj ([(''year'', JNum (ld_year d)), (''month'', JNum (ld_month d)),
            (''date'', JNum (ld_date d)), (''day'', JNum (ld_day d))]
           @ json_of_option ''holiday'' JBool (ld_holiday d)
           @ (if ld_grayOut d then [(''grayOut'', JBool True)] else [])
           @ json_of_option ''special'' JBool (ld_special d)
           @ json_of_option ''picked'' (\<lambda>v. v) (ld_picked d)
           @ json_of_option ''text'' JStr (ld_text d)
           @ json_of_option ''value'' JStr (ld_value d))"

text \<open>\<open>_datesEqual(a, b)\<close> is \<open>a && b && ...\<close>: it returns \<open>null\<close> when a date
  is \<open>null\<close>, and otherwise whether the year, the month and the date are equal.\<close>

definition datesEqual :: "local_date option \<Rightarrow> local_date option \<Rightarrow> json" where
  "datesEqual a b =
     (case a of
        None \<Rightarrow> JNull
      | Some x \<Rightarrow>
          (case b of
             None \<Rightarrow> JNull
           | Some y \<Rightarrow>
               JBool (ld_year x = ld_year y \<and> ld_month x = ld_month y \<and> ld_date x = ld_date y)))"

section \<open>The month grids and their cache\<close>

text \<open>The comma operator of JavaScript: both operands are evaluated, the value is
  the second.\<close>

definition js_comma :: "'a \<Rightarrow> 'b \<Rightarrow> 'b" where
  "js_comma a b = b"

definition alloc :: "local_date list \<Rightarrow> date_input \<Rightarrow> addr list \<times> date_input" where
  "alloc ds s =
     ([length (heap s) ..< length (heap s) + length ds], s\<lparr>heap := heap s @ ds\<rparr>)"

definition cache_lookup :: "date_input \<Rightarrow> int \<Rightarrow> int \<Rightarrow> dates_val" where
  "cache_lookup s year month =
     (case datesCache s (year, month) of None \<Rightarrow> VUndefined | Some v \<Rightarrow> v)"

text \<open>The call \<open>this._calendar.getDates(year, month)\<close>: the array the calendar
  returns is made of objects of the store.\<close>

definition call_getDates :: "calendar \<Rightarrow> int \<Rightarrow> int \<Rightarrow> date_input \<Rightarrow> dates_val \<times> date_input" where
  "call_getDates cal year month s =
     (let r = getDates cal (getDatesCalls s) year month;
          s1 = s\<lparr>getDatesCalls := Suc (getDatesCalls s)\<rparr>
      in case r of
           DUndefined \<Rightarrow> (VUndefined, s1)
         | DNull \<Rightarrow> (VNull, s1)
         | DArray ds \<Rightarrow> (let (as, s2) = alloc ds s1 in (VArr as, s2)))"

text \<open>\<open>_getDatesWithCache(year, month)\<close>: the calendar is asked when the cache
  holds \<open>undefined\<close> for the key; the caller gets copies of the cached objects in a
  new array, or the falsy value itself.\<close>

definition getDatesWithCache :: "calendar \<Rightarrow> int \<Rightarrow> int \<Rightarrow> date_input \<Rightarrow> dates_val \<times> date_input" where
  "getDatesWithCache cal year month s =
     (let (dates, s1) =
        (case cache_lookup s year month of
           VUndefined \<Rightarrow>
             (let (v, s') = call_getDates cal year month s
              in (v, s'\<lparr>datesCache := (datesCache s')((year, month) \<mapsto> v)\<rparr>))
         | v \<Rightarrow> (v, s))
      in case dates of
           VArr as \<Rightarrow> (let (cs, s2) = alloc (map (\<lambda>a. heap s1 ! a) as) s1 in (VArr cs, s2))
         | v \<Rightarrow> (v, s1))"

definition markGrayOut :: "addr \<Rightarrow> local_date list \<Rightarrow> local_date list" where
  "markGrayOut a h = h[a := (h ! a)\<lparr>ld_grayOut := True\<rparr>]"

text \<open>The loop over \<open>prevDates\<close>, from its last index down. Its condition is
  \<open>emptyCountInStart > 0, i >= 0\<close>.\<close>

function fillStart ::
  "addr list \<Rightarrow> int \<Rightarrow> local_date list \<times> addr option list \<times> int
     \<Rightarrow> local_date list \<times> addr option list \<times> int" where
  "fillStart prevDates i (h, dates, emptyCountInStart) =
     (if js_comma (emptyCountInStart > 0) (i \<ge> 0) then
        fillStart prevDates (i - 1)
          (markGrayOut (prevDates ! nat i) h, Some (prevDates ! nat i) # dates,
           emptyCountInStart - 1)
      else (h, dates, emptyCountInStart))"
  by pat_completeness auto
termination
  by (relation "measure (\<lambda>(prevDates, i, st). nat (i + 1))") (auto simp: js_comma_def)

text \<open>\<open>while (emptyCountInStart > 0) { dates.unshift(null); --emptyCountInStart; }\<close>\<close>

function padStart :: "addr option list \<Rightarrow> int \<Rightarrow> addr option list" where
  "padStart dates emptyCountInStart =
     (if emptyCountInStart > 0 then padStart (None # dates) (emptyCountInStart - 1)
      else dates)"
  by pat_completeness auto
termination
  by (relation "measure (\<lambda>(dates, n). nat n)") auto

text \<open>The loop over \<open>nextDates\<close>, with the condition
  \<open>emptyCountInTail > 0, i < nextDates.length\<close>.\<close>

function fillTail ::
  "addr list \<Rightarrow> int \<Rightarrow> local_date list \<times> addr option list \<times> int
     \<Rightarrow> local_date list \<times> addr option list \<times> int" where
  "fillTail nextDates i (h, dates, emptyCountInTail) =
     (if js_comma (emptyCountInTail > 0) (i < int (length nextDates)) then
        fillTail nextDates (i + 1)
          (markGrayOut (nextDates ! nat i) h, dates @ [Some (nextDates ! nat i)],
           emptyCountInTail - 1)
      else (h, dates, emptyCountInTail))"
  by pat_completeness auto
termination
  by (relation "measure (\<lambda>(nextDates, i, st). nat (int (length nextDates) - i))")
    (auto simp: js_comma_def)

function padTail :: "addr option list \<Rightarrow> int \<Rightarrow> addr option list" where
  "padTail dates emptyCountInTail =
     (if emptyCountInTail > 0 then padTail (dates @ [None]) (emptyCountInTail - 1)
      else dates)"
  by pat_completeness auto
termination
  by (relation "measure (\<lambda>(dates, n). nat n)") auto

declare fillStart.simps [simp del] padStart.simps [simp del]
  fillTail.simps [simp del] padTail.simps [simp del]

text \<open>The body of the final \<open>forEach\<close> for a date that is not \<open>null\<close>.
  \<open>d.holiday && !d.grayOut\<close> is \<open>undefined\<close> or \<open>false\<close> when \<open>d.holiday\<close> is.\<close>

definition tagDate :: "platform \<Rightarrow> local_date option \<Rightarrow> local_date \<Rightarrow> local_date" where
  "tagDate p datePicked d =
     (let d1 = d\<lparr>ld_special := (case ld_holiday d of
                                      None \<Rightarrow> None
                                    | Some h \<Rightarrow> if h then Some (\<not> ld_grayOut d) else Some False)\<rparr>;
          d2 = d1\<lparr>ld_picked := Some (datesEqual (Some d1) datePicked)\<rparr>;
          d3 = d2\<lparr>ld_text := Some (show_int (ld_date d2))\<rparr>
      in d3\<lparr>ld_value := Some (serializeValue p (json_of_local_date d3))\<rparr>)"

fun tagAll ::
  "platform \<Rightarrow> local_date option \<Rightarrow> addr option list \<Rightarrow> local_date list \<Rightarrow> local_date list" where
  "tagAll p datePicked [] h = h"
| "tagAll p datePicked (None # ds) h = tagAll p datePicked ds h"
| "tagAll p datePicked (Some a # ds) h =
     tagAll p datePicked ds (h[a := tagDate p datePicked (h ! a)])"

text \<open>
  \<open>_getLocalDatesToDisplay\<close>, in three parts. The first is the source up to the
  first \<open>while\<close> loop, for an array \<open>dates\<close>: \<open>dates[0].day\<close> is read once for
  each day of \<open>getDays()\<close> and throws on an empty array.
\<close>

definition displayStart ::
  "calendar \<Rightarrow> int \<Rightarrow> int \<Rightarrow> addr list \<Rightarrow> date_input
     \<Rightarrow> (js_error + addr option list) \<times> date_input" where
  "displayStart cal year month as s1 =
     (let days = getDays cal;
          months = getMonths cal year
      in if days \<noteq> [] \<and> as = [] then (Inl TypeError, s1)
         else
           (let firstDayIdx =
                  (case as of [] \<Rightarrow> findIndex (\<lambda>d. False) days
                   | a # _ \<Rightarrow> findIndex (\<lambda>d. dvalue d = ld_day (heap s1 ! a)) days);
                emptyCountInStart = firstDayIdx;
                dates = map Some as
            in if emptyCountInStart > 0 then
                 (case calcPrevLocalMonth year month months of
                    Inl e \<Rightarrow> (Inl e, s1)
                  | Inr prev \<Rightarrow>
                      (let (prevDates, s2) =
                             getDatesWithCache cal (ym_year prev) (ym_month prev) s1
                       in case prevDates of
                            VArr ps \<Rightarrow>
                              (let (h, dates', n) =
                                     fillStart ps (int (length ps) - 1)
                                       (heap s2, dates, emptyCountInStart)
                               in (Inr (padStart dates' n), s2\<lparr>heap := h\<rparr>))
                          | _ \<Rightarrow> (Inr (padStart dates emptyCountInStart), s2)))
               else (Inr (padStart dates emptyCountInStart), s1)))"

text \<open>The second part: from \<open>emptyCountInTail\<close> to the second \<open>while\<close> loop.\<close>

definition displayTail ::
  "caLINEdar \<Rightarrow> calendar \<Rightarrow> int \<Rightarrow> int \<Rightarrow> addr option list \<Rightarrow> date_input
     \<Rightarrow> (js_error + addr option list) \<times> date_input" where
  "displayTail cfg cal year month dates s2 =
     (let months = getMonths cal year;
          emptyCountInTail = MAX_COUNT_DATES_IN_DATE_PICKER cfg - int (length dates)
      in if emptyCountInTail > 0 then
           (case calcNextLocalMonth year month months of
              Inl e \<Rightarrow> (Inl e, s2)
            | Inr next \<Rightarrow>
                (let (nextDates, s3) =
                       getDatesWithCache cal (ym_year next) (ym_month next) s2
                 in case nextDates of
                      VArr ns \<Rightarrow>
                        (let (h, dates', n) =
                               fillTail ns 0 (heap s3, dates, emptyCountInTail)
                         in (Inr (padTail dates' n), s3\<lparr>heap := h\<rparr>))
                    | _ \<Rightarrow> (Inr (padTail dates emptyCountInTail), s3)))
         else (Inr (padTail dates emptyCountInTail), s2))"

text \<open>The whole function. When \<open>dates\<close> is \<open>null\<close> or \<open>undefined\<close>, the read of
  \<open>dates[0]\<close>, or that of \<open>dates.length\<close> when there are no days, throws.\<close>

definition getLocalDatesToDisplay ::
  "caLINEdar \<Rightarrow> platform \<Rightarrow> calendar \<Rightarrow> int \<Rightarrow> int \<Rightarrow> local_date option \<Rightarrow> date_input
     \<Rightarrow> (js_error + addr option list) \<times> date_input" where
  "getLocalDatesToDisplay cfg p cal year month datePicked s =
     (let (dates0, s1) = getDatesWithCache cal year month s
      in case dates0 of
           VArr as \<Rightarrow>
             (case displayStart cal year month as s1 of
                (Inl e, s2) \<Rightarrow> (Inl e, s2)
              | (Inr dates1, s2) \<Rightarrow>
                  (case displayTail cfg cal year month dates1 s2 of
                     (Inl e, s3) \<Rightarrow> (Inl e, s3)
                   | (Inr dates2, s3) \<Rightarrow>
                       (Inr dates2, s3\<lparr>heap := tagAll p datePicked dates2 (heap s3)\<rparr>)))
         | _ \<Rightarrow> (Inl TypeError, s1))"

section \<open>The parameters of the pickers\<close>

definition getPickerBtnsParams :: "calendar \<Rightarrow> int \<Rightarrow> int \<Rightarrow> picker_btn list" where
  "getPickerBtnsParams cal year month =
     (let format = getDateStringFormat cal year month;
          pickerBtns = [\<lparr>pb_text = fmt_year_text format, pb_value = ''year-picker-btn''\<rparr>,
                        \<lparr>pb_text = fmt_month_text format, pb_value = ''month-picker-btn''\<rparr>]
      in if fmt_year_pos format > fmt_month_pos format then rev pickerBtns else pickerBtns)"

definition json_year_month :: "int \<Rightarrow> int \<Rightarrow> json" where
  "json_year_month year month = JObj [(''year'', JNum year), (''month'', JNum month)]"

text \<open>\<open>_getDatePickerParams(year, month, datePicked)\<close>.\<close>

definition getDatePickerParams ::
  "caLINEdar \<Rightarrow> platform \<Rightarrow> calendar \<Rightarrow> int \<Rightarrow> int \<Rightarrow> local_date option \<Rightarrow> date_input
     \<Rightarrow> (js_error + date_picker_params) \<times> date_input" where
  "getDatePickerParams cfg p cal year month datePicked s =
     (let pickerBtns = getPickerBtnsParams cal year month;
          days = getDays cal;
          weekHeaders = map dtext days;
          months = getMonths cal year
      in case calcPrevLocalMonth year month months of
           Inl e \<Rightarrow> (Inl e, s)
         | Inr prev \<Rightarrow>
             (case calcNextLocalMonth year month months of
                Inl e \<Rightarrow> (Inl e, s)
              | Inr next \<Rightarrow>
                  (let noMoreLeft0 =
                         (\<not> isDateInCalendar cal (Num (ym_year prev)) (Some (ym_month prev)));
                       noMoreRight0 =
                         (\<not> isDateInCalendar cal (Num (ym_year next)) (Some (ym_month next)));
                       noMoreRight = (if rtl s then noMoreLeft0 else noMoreRight0);
                       noMoreLeft = (if rtl s then noMoreRight0 else noMoreLeft0);
                       v = serializeValue p (json_year_month year month)
                   in case getLocalDatesToDisplay cfg p cal year month datePicked s of
                        (Inl e, s') \<Rightarrow> (Inl e, s')
                      | (Inr dates, s') \<Rightarrow>
                          (Inr \<lparr>dp_dates = dates, dp_value = v, dp_pickerBtns = pickerBtns,
                                dp_weekHeaders = weekHeaders, dp_noMoreLeft = noMoreLeft,
                                dp_noMoreRight = noMoreRight, dp_rtl = rtl s\<rparr>, s'))))"

text \<open>\<open>_getMonthPickerParams(year, monthPicked)\<close>. The source writes the serialised
  value into the month objects \<open>getMonths\<close> returned; here the months of the
  parameters are new values, and \<open>getMonths\<close> is a function of the year: the
  calendar is taken to return new month objects at each call.\<close>

definition getMonthPickerParams ::
  "platform \<Rightarrow> calendar \<Rightarrow> bool \<Rightarrow> int \<Rightarrow> int \<Rightarrow> month_picker_params" where
  "getMonthPickerParams p cal rtl_flag year monthPicked =
     (let months = getMonths cal year;
          months' = map (\<lambda>m. \<lparr>mc_text = mtext m,
                               mc_value = serializeValue p (json_year_month year (mvalue m))\<rparr>)
                        months;
          pickerBtns = getPickerBtnsParams cal year monthPicked;
          v = serializeValue p (json_year_month year monthPicked)
      in \<lparr>mp_value = v, mp_months = months', mp_pickerBtns = pickerBtns, mp_rtl = rtl_flag,
          mp_noMoreLeft = True, mp_noMoreRight = True\<rparr>)"

text \<open>The two loops of \<open>_getYearPickerParams\<close> that collect the years.\<close>

function years_before :: "int \<Rightarrow> int \<Rightarrow> int list \<Rightarrow> int list" where
  "years_before anchorYear i years =
     (if i > 0 then years_before anchorYear (i - 1) (years @ [anchorYear - i]) else years)"
  by pat_completeness auto
termination
  by (relation "measure (\<lambda>(a, i, ys). nat i)") auto

function years_after :: "int \<Rightarrow> int \<Rightarrow> int \<Rightarrow> int list \<Rightarrow> int list" where
  "years_after anchorYear rest i years =
     (if i \<le> rest then years_after anchorYear rest (i + 1) (years @ [anchorYear + i])
      else years)"
  by pat_completeness auto
termination
  by (relation "measure (\<lambda>(a, rest, i, ys). nat (rest + 1 - i))") auto

declare years_before.simps [simp del] years_after.simps [simp del]

definition yearBlock :: "caLINEdar \<Rightarrow> int \<Rightarrow> int list" where
  "yearBlock cfg anchorYear =
     (let COUNT = MAX_COUNT_YEAR_IN_YEAR_PICKER cfg;
          half = COUNT div 2;
          years = years_before anchorYear half [];
          years = years @ [anchorYear];
          rest = COUNT - int (length years)
      in years_after anchorYear rest 1 years)"

text \<open>\<open>years[i] + k\<close>: \<open>NaN\<close> when \<open>years[i]\<close> is \<open>undefined\<close>.\<close>

definition js_plus :: "int option \<Rightarrow> int \<Rightarrow> jsnum" where
  "js_plus v k = (case v of None \<Rightarrow> NaN | Some n \<Rightarrow> Num (n + k))"

definition json_year_picker :: "int \<Rightarrow> int \<Rightarrow> int list \<Rightarrow> json" where
  "json_year_picker anchorYear anchorMonth years =
     JObj [(''anchorYear'', JNum anchorYear), (''anchorMonth'', JNum anchorMonth),
           (''years'', JArr (map JNum years))]"

text \<open>\<open>_getYearPickerParams(anchorYear, anchorMonth)\<close>.\<close>

definition getYearPickerParams ::
  "caLINEdar \<Rightarrow> platform \<Rightarrow> calendar \<Rightarrow> bool \<Rightarrow> int \<Rightarrow> int \<Rightarrow> year_picker_params" where
  "getYearPickerParams cfg p cal rtl_flag anchorYear anchorMonth =
     (let COUNT = MAX_COUNT_YEAR_IN_YEAR_PICKER cfg;
          years = yearBlock cfg anchorYear;
          noMoreLeft0 = (\<not> isDateInCalendar cal (js_plus (js_nth years 0) (- 1)) None);
          noMoreRight0 = (\<not> isDateInCalendar cal (js_plus (js_nth years (COUNT - 1)) 1) None);
          noMoreRight = (if rtl_flag then noMoreLeft0 else noMoreRight0);
          noMoreLeft = (if rtl_flag then noMoreRight0 else noMoreLeft0);
          years' = filter (\<lambda>y. isDateInCalendar cal (Num y) None) years;
          v = serializeValue p (json_year_picker anchorYear anchorMonth years')
      in \<lparr>yp_value = v, yp_years = map (\<lambda>y. \<lparr>yc_text = y, yc_value = y\<rparr>) years',
          yp_noMoreLeft = noMoreLeft, yp_noMoreRight = noMoreRight, yp_rtl = rtl_flag\<rparr>)"

section \<open>Navigation\<close>

definition render_request :: "render \<Rightarrow> date_input \<Rightarrow> date_input" where
  "render_request r s = s\<lparr>rendered := rendered s @ [r]\<rparr>"

definition showDatePicker ::
  "caLINEdar \<Rightarrow> platform \<Rightarrow> calendar \<Rightarrow> int \<Rightarrow> int \<Rightarrow> local_date option \<Rightarrow> date_input
     \<Rightarrow> (js_error + unit) \<times> date_input" where
  "showDatePicker cfg p cal year month datePicked s =
     (case getDatePickerParams cfg p cal year month datePicked s of
        (Inl e, s') \<Rightarrow> (Inl e, s')
      | (Inr params, s') \<Rightarrow> (Inr (), render_request (ShowDatePicker params) s'))"

definition showMonthPicker ::
  "platform \<Rightarrow> calendar \<Rightarrow> int \<Rightarrow> int \<Rightarrow> date_input \<Rightarrow> (js_error + unit) \<times> date_input" where
  "showMonthPicker p cal year monthPicked s =
     (Inr (), render_request (ShowMonthPicker (getMonthPickerParams p cal (rtl s) year monthPicked)) s)"

definition showYearPicker ::
  "caLINEdar \<Rightarrow> platform \<Rightarrow> calendar \<Rightarrow> int \<Rightarrow> int \<Rightarrow> date_input
     \<Rightarrow> (js_error + unit) \<times> date_input" where
  "showYearPicker cfg p cal anchorYear anchorMonth s =
     (Inr (), render_request
        (ShowYearPicker (getYearPickerParams cfg p cal (rtl s) anchorYear anchorMonth)) s)"

text \<open>\<open>_flipDatePicker(year, month, dir)\<close>: first the month to show, then the
  request to show it.\<close>

definition flipDatePickerTarget ::
  "calendar \<Rightarrow> bool \<Rightarrow> int \<Rightarrow> int \<Rightarrow> string \<Rightarrow> js_error + year_month" where
  "flipDatePickerTarget cal rtl_flag year month dir =
     (let months = getMonths cal year;
          next = (if rtl_flag then dir = ''left'' else dir = ''right'')
      in if next then calcNextLocalMonth year month months
         else calcPrevLocalMonth year month months)"

definition flipDatePicker ::
  "caLINEdar \<Rightarrow> platform \<Rightarrow> calendar \<Rightarrow> int \<Rightarrow> int \<Rightarrow> string \<Rightarrow> date_input
     \<Rightarrow> (js_error + unit) \<times> date_input" where
  "flipDatePicker cfg p cal year month dir s =
     (case flipDatePickerTarget cal (rtl s) year month dir of
        Inl e \<Rightarrow> (Inl e, s)
      | Inr target \<Rightarrow>
          (case getDatePickerParams cfg p cal (ym_year target) (ym_month target) (localDate s) s of
             (Inl e, s') \<Rightarrow> (Inl e, s')
           | (Inr params, s') \<Rightarrow> (Inr (), render_request (ShowDatePicker params) s')))"

text \<open>\<open>_flipYearPicker(anchorYear, anchorMonth, years, dir)\<close>: the new anchor year,
  then the request.\<close>

definition flipYearPickerAnchor :: "bool \<Rightarrow> int \<Rightarrow> 'a list \<Rightarrow> string \<Rightarrow> int" where
  "flipYearPickerAnchor rtl_flag anchorYear years dir =
     (let factor = (if dir = ''right'' then 1 else - 1);
          factor = (if rtl_flag then factor * (- 1) else factor)
      in anchorYear + factor * int (length years))"

definition flipYearPicker ::
  "caLINEdar \<Rightarrow> platform \<Rightarrow> calendar \<Rightarrow> int \<Rightarrow> int \<Rightarrow> 'a list \<Rightarrow> string \<Rightarrow> date_input
     \<Rightarrow> (js_error + unit) \<times> date_input" where
  "flipYearPicker cfg p cal anchorYear anchorMonth years dir s =
     showYearPicker cfg p cal (flipYearPickerAnchor (rtl s) anchorYear years dir) anchorMonth s"

section \<open>The public operations\<close>

text \<open>\<open>getDate()\<close>: \<open>None\<close> is \<open>null\<close>.\<close>

definition getDate :: "date_input \<Rightarrow> jsnum option" where
  "getDate s = (case unixDate s of None \<Rightarrow> None | Some d \<Rightarrow> Some (Date_getTime_seconds d))"

text \<open>\<open>setDate(date)\<close>, with the boolean it returns.\<close>

definition setDate :: "platform \<Rightarrow> calendar \<Rightarrow> date_arg \<Rightarrow> date_input \<Rightarrow> bool \<times> date_input" where
  "setDate p cal date s =
     (let newDate0 = (case date of
                        ADate d \<Rightarrow> Some d
                      | AInt n \<Rightarrow> Some (new_Date_ms (n * 1000))
                      | AOther \<Rightarrow> None)
      in case newDate0 of
           None \<Rightarrow> (False, s)
         | Some nd \<Rightarrow>
             (let newDate = new_Date_ymd p (Date_getFullYear p nd) (Date_getMonth p nd)
                              (Date_getDate p nd);
                  local = convertJSDate2LocalDate cal (Date_getFullYear p newDate)
                            (Date_getMonth p newDate) (Date_getDate p newDate)
              in case local of
                   None \<Rightarrow> (False, s\<lparr>warnings := warnings s @ [date]\<rparr>)
                 | Some l \<Rightarrow>
                     (True, s\<lparr>unixDate := Some newDate, localDate := Some l,
                              input_value := toLocaleDateString cal newDate\<rparr>)))"

definition clearDate :: "calendar \<Rightarrow> date_input \<Rightarrow> date_input" where
  "clearDate cal s =
     s\<lparr>unixDate := None, localDate := None, input_value := getDateStringPlaceholder cal\<rparr>"

text \<open>\<open>if (!this.setDate(date)) { this.clearDate(); }\<close>, in the constructor and in
  \<open>closeCalendar\<close>.\<close>

definition setDateOrClear :: "platform \<Rightarrow> calendar \<Rightarrow> date_arg \<Rightarrow> date_input \<Rightarrow> date_input" where
  "setDateOrClear p cal date s =
     (case setDate p cal date s of (ok, s') \<Rightarrow> if \<not> ok then clearDate cal s' else s')"

text \<open>\<open>subscribe(eventType, handler)\<close> and \<open>unsubscribe\<close>: \<open>handler\<close> is \<open>None\<close>
  when it is not a function. Only \<open>onChange\<close> has a queue. For an event type that
  names a property every object inherits, such as \<open>toString\<close>, \<open>unsubscribe\<close> of
  the source throws before it changes anything; the state it leaves is the one
  given here.\<close>

definition subscribe :: "string \<Rightarrow> nat option \<Rightarrow> date_input \<Rightarrow> date_input" where
  "subscribe eventType handler s =
     (case handler of
        Some h \<Rightarrow> if eventType \<in> set [''onChange''] then s\<lparr>events := events s @ [h]\<rparr> else s
      | None \<Rightarrow> s)"

definition unsubscribe :: "string \<Rightarrow> nat option \<Rightarrow> date_input \<Rightarrow> date_input" where
  "unsubscribe eventType handler s =
     (case handler of
        Some h \<Rightarrow>
          if eventType = ''onChange'' then s\<lparr>events := filter (\<lambda>h'. h' \<noteq> h) (events s)\<rparr> else s
      | None \<Rightarrow> s)"

text \<open>The parameters of the constructor that it reads, and the text the input
  element shows before.\<close>

record ctor_params =
  cp_rtl :: bool
  cp_date :: date_arg
  cp_onChange :: "nat option"
  cp_input_value :: string

definition constructor :: "platform \<Rightarrow> calendar \<Rightarrow> ctor_params \<Rightarrow> date_input" where
  "constructor p cal params =
     (let s0 = \<lparr>unixDate = None, localDate = None, input_value = cp_input_value params,
                rtl = cp_rtl params, events = [], datesCache = Map.empty, heap = [],
                getDatesCalls = 0, warnings = [], rendered = [], notified = []\<rparr>;
          s1 = setDateOrClear p cal (cp_date params) s0
      in subscribe ''onChange'' (cp_onChange params) s1)"

text \<open>\<open>openCalendar()\<close> asks for the next animation frame, in which
  \<open>_openCalendar()\<close> runs. \<open>isCurrent\<close> says whether
  \<open>caLINEdar.getCurrentDateInput()\<close> is this input, \<open>isOpen\<close> is
  \<open>caLINEdar.isCalendarOpen()\<close>.\<close>

definition openCalendar :: "bool \<Rightarrow> bool \<Rightarrow> date_input \<Rightarrow> date_input" where
  "openCalendar isCurrent isOpen s =
     (if \<not> isCurrent then render_request RequestOpen s
      else if \<not> isOpen then render_request RequestOpen s
      else s)"

definition openCalendarFrame ::
  "caLINEdar \<Rightarrow> platform \<Rightarrow> calendar \<Rightarrow> date_input \<Rightarrow> (js_error + unit) \<times> date_input" where
  "openCalendarFrame cfg p cal s =
     (let datePicked = localDate s;
          dateLocal = (case datePicked of Some l \<Rightarrow> l | None \<Rightarrow> getNow cal)
      in case getDatePickerParams cfg p cal (ld_year dateLocal) (ld_month dateLocal) datePicked s of
           (Inl e, s') \<Rightarrow> (Inl e, s')
         | (Inr params, s') \<Rightarrow> (Inr (), render_request (OpenCalendar params) s'))"

definition arg_of_unixDate :: "jsdate option \<Rightarrow> date_arg" where
  "arg_of_unixDate u = (case u of None \<Rightarrow> AOther | Some d \<Rightarrow> ADate d)"

definition closeCalendar :: "platform \<Rightarrow> calendar \<Rightarrow> bool \<Rightarrow> date_input \<Rightarrow> date_input" where
  "closeCalendar p cal isCurrent s =
     (if \<not> isCurrent then s
      else render_request CloseCalendar
             (setDateOrClear p cal (arg_of_unixDate (unixDate s)) s))"

section \<open>The event handlers\<close>

text \<open>\<open>_notify("onChange")\<close> asks for an animation frame when the queue is not
  empty. \<open>notified\<close> takes the handlers in the queue at the call; the frame of the
  source calls the handlers that array holds when the frame runs, so also those that
  \<open>subscribe\<close> has pushed to it since.\<close>

definition notify :: "date_input \<Rightarrow> date_input" where
  "notify s = (if events s \<noteq> [] then s\<lparr>notified := notified s @ [events s]\<rparr> else s)"

definition onFocus :: "bool \<Rightarrow> bool \<Rightarrow> date_input \<Rightarrow> date_input" where
  "onFocus isCurrent isOpen s = openCalendar isCurrent isOpen s"

definition onClickOutside :: "platform \<Rightarrow> calendar \<Rightarrow> bool \<Rightarrow> date_input \<Rightarrow> date_input" where
  "onClickOutside p cal isCurrent s = closeCalendar p cal isCurrent s"

definition onClearBtnClick :: "calendar \<Rightarrow> date_input \<Rightarrow> date_input" where
  "onClearBtnClick cal s = notify (clearDate cal s)"

text \<open>The picker element and the element clicked, as the handlers read them:
  the \<open>id\<close>, the class list, the tag name and the attribute
  \<open>data-caLINEdar-value\<close> (\<open>None\<close> when the element has none).\<close>

record picker_el =
  p_id :: string
  p_value :: "string option"

record target_el =
  t_classList :: "string list"
  t_tagName :: string
  t_value :: "string option"

definition toLowerCase :: "string \<Rightarrow> string" where
  "toLowerCase str =
     map (\<lambda>c. let n = (of_char c :: nat) in if 65 \<le> n \<and> n \<le> 90 then char_of (n + 32) else c) str"

text \<open>Two and three arguments that are property reads, evaluated from left to
  right before the call.\<close>

definition args2 ::
  "js_error + 'a \<Rightarrow> js_error + 'b \<Rightarrow> ('a \<Rightarrow> 'b \<Rightarrow> date_input \<Rightarrow> (js_error + 'c) \<times> date_input)
     \<Rightarrow> date_input \<Rightarrow> (js_error + 'c) \<times> date_input" where
  "args2 a b f s =
     (case a of
        Inl e \<Rightarrow> (Inl e, s)
      | Inr x \<Rightarrow> (case b of Inl e \<Rightarrow> (Inl e, s) | Inr y \<Rightarrow> f x y s))"

definition args3 ::
  "js_error + 'a \<Rightarrow> js_error + 'b \<Rightarrow> js_error + 'c
     \<Rightarrow> ('a \<Rightarrow> 'b \<Rightarrow> 'c \<Rightarrow> date_input \<Rightarrow> (js_error + 'd) \<times> date_input)
     \<Rightarrow> date_input \<Rightarrow> (js_error + 'd) \<times> date_input" where
  "args3 a b c f s =
     (case a of
        Inl e \<Rightarrow> (Inl e, s)
      | Inr x \<Rightarrow> args2 b c (f x) s)"

text \<open>\<open>_onPanelButtonClick(picker, target)\<close>.\<close>

definition onPanelButtonClick ::
  "caLINEdar \<Rightarrow> platform \<Rightarrow> calendar \<Rightarrow> picker_el \<Rightarrow> target_el \<Rightarrow> date_input
     \<Rightarrow> (js_error + unit) \<times> date_input" where
  "onPanelButtonClick cfg p cal picker target s =
     (let v = unserializeValue p (p_value picker);
          btnValue = t_value target
      in if btnValue = Some ''year-picker-btn'' \<and> p_id picker \<noteq> ID_YEAR_PICKER cfg then
           args2 (get_int v ''year'') (get_int v ''month'') (showYearPicker cfg p cal) s
         else if btnValue = Some ''month-picker-btn'' \<and> p_id picker \<noteq> ID_MONTH_PICKER cfg then
           args2 (get_int v ''year'') (get_int v ''month'') (showMonthPicker p cal) s
         else
           (let goLeft = (''left-btn'' \<in> set (t_classList target));
                goRight = (''right-btn'' \<in> set (t_classList target))
            in if p_id picker = ID_DATE_PICKER cfg then
                 (if goLeft then
                    args2 (get_int v ''year'') (get_int v ''month'')
                      (\<lambda>y m. flipDatePicker cfg p cal y m ''left'') s
                  else if goRight then
                    args2 (get_int v ''year'') (get_int v ''month'')
                      (\<lambda>y m. flipDatePicker cfg p cal y m ''right'') s
                  else (Inr (), s))
               else if p_id picker = ID_YEAR_PICKER cfg then
                 (if goLeft then
                    args3 (get_int v ''anchorYear'') (get_int v ''anchorMonth'')
                      (get_array v ''years'')
                      (\<lambda>y m ys. flipYearPicker cfg p cal y m ys ''left'') s
                  else if goRight then
                    args3 (get_int v ''anchorYear'') (get_int v ''anchorMonth'')
                      (get_array v ''years'')
                      (\<lambda>y m ys. flipYearPicker cfg p cal y m ys ''right'') s
                  else (Inr (), s))
               else (Inr (), s)))"

text \<open>The date-picker case of \<open>_onPick\<close>, from the converted date on.\<close>

definition pickDate ::
  "caLINEdar \<Rightarrow> platform \<Rightarrow> calendar \<Rightarrow> int \<Rightarrow> int \<Rightarrow> int \<Rightarrow> date_input
     \<Rightarrow> (js_error + unit) \<times> date_input" where
  "pickDate cfg p cal y m d s =
     (case convertLocalDate2JSDate cal y m d of
        None \<Rightarrow> (Inl TypeError, s)
      | Some jsDate \<Rightarrow>
          (let jsDate' = new_Date_ymd p (Num (js_year jsDate)) (Num (js_month jsDate))
                           (Num (js_date jsDate))
           in case setDate p cal (ADate jsDate') s of
                (ok, s1) \<Rightarrow>
                  if ok then
                    (case localDate s1 of
                       None \<Rightarrow> (Inl TypeError, s1)
                     | Some l \<Rightarrow>
                         (case showDatePicker cfg p cal (ld_year l) (ld_month l) (Some l) s1 of
                            (Inl e, s2) \<Rightarrow> (Inl e, s2)
                          | (Inr u, s2) \<Rightarrow> (Inr (), notify s2)))
                  else (Inr (), s1)))"

text \<open>\<open>_onPick(picker, target)\<close>. In the year picker the year is
  \<open>parseInt(value)\<close>.\<close>

definition onPick ::
  "caLINEdar \<Rightarrow> platform \<Rightarrow> calendar \<Rightarrow> picker_el \<Rightarrow> target_el \<Rightarrow> date_input
     \<Rightarrow> (js_error + unit) \<times> date_input" where
  "onPick cfg p cal picker target s =
     (case t_value target of
        None \<Rightarrow> (Inr (), s)
      | Some str \<Rightarrow>
          if str = [] then (Inr (), s)
          else if p_id picker = ID_DATE_PICKER cfg then
            (let v = unserializeValue p (Some str)
             in args3 (get_int v ''year'') (get_int v ''month'') (get_int v ''date'')
                  (pickDate cfg p cal) s)
          else if p_id picker = ID_MONTH_PICKER cfg then
            (let v = unserializeValue p (Some str)
             in args2 (get_int v ''year'') (get_int v ''month'')
                  (\<lambda>y m. showDatePicker cfg p cal y m (localDate s)) s)
          else if p_id picker = ID_YEAR_PICKER cfg then
            (let year = parseInt p str;
                 data = unserializeValue p (p_value picker)
             in args2 (get_int data ''anchorMonth'')
                  (case year of Num y \<Rightarrow> Inr y | NaN \<Rightarrow> Inl IllTyped)
                  (\<lambda>m y. showDatePicker cfg p cal y m (localDate s)) s)
          else (Inr (), s))"

text \<open>\<open>_onPickerClick(e)\<close>, with \<open>e.detail\<close> as \<open>picker\<close> and \<open>target\<close>. The
  listener is an \<open>async\<close> function: what \<open>_onPanelButtonClick\<close> or \<open>_onPick\<close>
  throws inside it is the rejection of the promise it returns, and \<open>Inl\<close> is that
  rejection.\<close>

definition onPickerClick ::
  "caLINEdar \<Rightarrow> platform \<Rightarrow> calendar \<Rightarrow> picker_el \<Rightarrow> target_el \<Rightarrow> date_input
     \<Rightarrow> (js_error + unit) \<times> date_input" where
  "onPickerClick cfg p cal picker target s =
     (if ''caLINEdar-panel__btn'' \<in> set (t_classList target) then
        onPanelButtonClick cfg p cal picker target s
      else if ''caLINEdar-table-cell'' \<in> set (t_classList target)
              \<and> toLowerCase (t_tagName target) = ''td'' then
        onPick cfg p cal picker target s
      else (Inr (), s))"

section \<open>A run of operations\<close>

text \<open>The public operations and the event handlers, and the state they leave, also
  when they throw.\<close>

datatype operation =
    OpSetDate date_arg
  | OpClearDate
  | OpOpenCalendar bool bool
  | OpOpenCalendarFrame
  | OpCloseCalendar bool
  | OpSubscribe string "nat option"
  | OpUnsubscribe string "nat option"
  | OpFocus bool bool
  | OpClickOutside bool
  | OpClearBtnClick
  | OpPickerClick picker_el target_el

fun perform :: "caLINEdar \<Rightarrow> platform \<Rightarrow> calendar \<Rightarrow> operation \<Rightarrow> date_input \<Rightarrow> date_input" where
  "perform cfg p cal (OpSetDate date) s = snd (setDate p cal date s)"
| "perform cfg p cal OpClearDate s = clearDate cal s"
| "perform cfg p cal (OpOpenCalendar isCurrent isOpen) s = openCalendar isCurrent isOpen s"
| "perform cfg p cal OpOpenCalendarFrame s = snd (openCalendarFrame cfg p cal s)"
| "perform cfg p cal (OpCloseCalendar isCurrent) s = closeCalendar p cal isCurrent s"
| "perform cfg p cal (OpSubscribe eventType handler) s = subscribe eventType handler s"
| "perform cfg p cal (OpUnsubscribe eventType handler) s = unsubscribe eventType handler s"
| "perform cfg p cal (OpFocus isCurrent isOpen) s = onFocus isCurrent isOpen s"
| "perform cfg p cal (OpClickOutside isCurrent) s = onClickOutside p cal isCurrent s"
| "perform cfg p cal OpClearBtnClick s = onClearBtnClick cal s"
| "perform cfg p cal (OpPickerClick picker target) s = snd (onPickerClick cfg p cal picker target s)"

fun run :: "caLINEdar \<Rightarrow> platform \<Rightarrow> calendar \<Rightarrow> operation list \<Rightarrow> date_input \<Rightarrow> date_input" where
  "run cfg p cal [] s = s"
| "run cfg p cal (x # xs) s = run cfg p cal xs (perform cfg p cal x s)"

section \<open>Predicates of the specification\<close>

text \<open>The picked date is consistent: both fields are \<open>null\<close>, or the local date is
  what the calendar converts the stored date to.\<close>

definition picked_consistent :: "platform \<Rightarrow> calendar \<Rightarrow> date_input \<Rightarrow> bool" where
  "picked_consistent p cal s =
     (case unixDate s of
        None \<Rightarrow> localDate s = None
      | Some u \<Rightarrow>
          localDate s \<noteq> None
          \<and> convertJSDate2LocalDate cal (Date_getFullYear p u) (Date_getMonth p u)
              (Date_getDate p u) = localDate s)"

text \<open>The date \<open>setDate\<close> aligns its argument to, when the argument is a date or an
  integer.\<close>

definition alignedDate :: "platform \<Rightarrow> date_arg \<Rightarrow> jsdate option" where
  "alignedDate p date =
     (case date of
        ADate d \<Rightarrow> Some (new_Date_ymd p (Date_getFullYear p d) (Date_getMonth p d) (Date_getDate p d))
      | AInt n \<Rightarrow>
          Some (new_Date_ymd p (Date_getFullYear p (new_Date_ms (n * 1000)))
                  (Date_getMonth p (new_Date_ms (n * 1000)))
                  (Date_getDate p (new_Date_ms (n * 1000))))
      | AOther \<Rightarrow> None)"

text \<open>Every cached array refers to objects of the store.\<close>

definition cache_wf :: "date_input \<Rightarrow> bool" where
  "cache_wf s =
     (\<forall>k as. datesCache s k = Some (VArr as) \<longrightarrow> (\<forall>a \<in> set as. a < length (heap s)))"

section \<open>A sample platform and a sample calendar\<close>

text \<open>A compact JSON text of a value, and a \<open>JSON.parse\<close> that knows the texts of
  a given list of values and rejects every other text.\<close>

fun intersperse :: "'a \<Rightarrow> 'a list \<Rightarrow> 'a list" where
  "intersperse c [] = []"
| "intersperse c [x] = [x]"
| "intersperse c (x # y # zs) = x # c # intersperse c (y # zs)"

fun show_json :: "json \<Rightarrow> string" where
  "show_json JNull = ''null''"
| "show_json (JNum n) = show_int n"
| "show_json (JBool b) = (if b then ''true'' else ''false'')"
| "show_json (JStr str) = [char_of (34::nat)] @ str @ [char_of (34::nat)]"
| "show_json (JArr xs) = ''['' @ concat (intersperse '','' (map show_json xs)) @ '']''"
| "show_json (JObj kvs) =
     ''{'' @ concat (intersperse '',''
              (map (\<lambda>(k, v). [char_of (34::nat)] @ k @ [char_of (34::nat)] @ '':'' @ show_json v) kvs))
       @ ''}''"

definition parse_known :: "json list \<Rightarrow> string \<Rightarrow> json option" where
  "parse_known known str = find (\<lambda>v. show_json v = str) known"

definition sample_platform :: platform where
  "sample_platform =
     \<lparr>JSON_stringify = show_json,
      JSON_parse = parse_known [json_year_month 2018 1, json_year_month 2018 0],
      parseInt = (\<lambda>str. NaN),
      LocalTZA = 0\<rparr>"

text \<open>A Gregorian calendar for the years 1900 to 2100 with the months 0 to 11 and
  the days 0 (Sunday) to 6; Saturdays and Sundays are holidays.\<close>

definition sample_months :: "month_obj list" where
  "sample_months =
     map (\<lambda>k. \<lparr>mvalue = k, mtext = show_int (k + 1)\<rparr>) [0, 1, 2, 3, 4, 5, 6, 7, 8, 9, 10, 11]"

definition sample_days :: "day_obj list" where
  "sample_days =
     [\<lparr>dvalue = 0, dtext = ''Su''\<rparr>, \<lparr>dvalue = 1, dtext = ''Mo''\<rparr>, \<lparr>dvalue = 2, dtext = ''Tu''\<rparr>,
      \<lparr>dvalue = 3, dtext = ''We''\<rparr>, \<lparr>dvalue = 4, dtext = ''Th''\<rparr>, \<lparr>dvalue = 5, dtext = ''Fr''\<rparr>,
      \<lparr>dvalue = 6, dtext = ''Sa''\<rparr>]"

definition sample_in_calendar :: "int \<Rightarrow> bool" where
  "sample_in_calendar y = (1900 \<le> y \<and> y \<le> 2100)"

definition sample_date :: "int \<Rightarrow> int \<Rightarrow> int \<Rightarrow> local_date" where
  "sample_date y m d =
     (let wd = (days_from_civil y (m + 1) d + 4) mod 7
      in \<lparr>ld_year = y, ld_month = m, ld_date = d, ld_day = wd,
          ld_holiday = (if wd = 0 \<or> wd = 6 then Some True else None), ld_grayOut = False, ld_special = None,
          ld_picked = None, ld_text = None, ld_value = None\<rparr>)"

definition sample_month_length :: "int \<Rightarrow> int \<Rightarrow> nat" where
  "sample_month_length y m = nat (MakeDay y (m + 1) 1 - MakeDay y m 1)"

definition sample_getDates :: "nat \<Rightarrow> int \<Rightarrow> int \<Rightarrow> dates_result" where
  "sample_getDates calls y m =
     (if sample_in_calendar y \<and> 0 \<le> m \<and> m \<le> 11
      then DArray (map (\<lambda>d. sample_date y m (int d)) [1 ..< Suc (sample_month_length y m)])
      else DNull)"

definition sample_calendar :: calendar where
  "sample_calendar =
     \<lparr>getMonths = (\<lambda>y. sample_months),
      getDays = sample_days,
      getDates = sample_getDates,
      isDateInCalendar = (\<lambda>y m. case y of Num n \<Rightarrow> sample_in_calendar n | NaN \<Rightarrow> False),
      convertJSDate2LocalDate =
        (\<lambda>y m d. case (y, m, d) of
                    (Num yy, Num mm, Num dd) \<Rightarrow>
                      if sample_in_calendar yy then Some (sample_date yy mm dd) else None
                  | _ \<Rightarrow> None),
      convertLocalDate2JSDate = (\<lambda>y m d. Some \<lparr>js_year = y, js_month = m, js_date = d\<rparr>),
      toLocaleDateString =
        (\<lambda>d. case d of
                None \<Rightarrow> ''Invalid Date''
              | Some t \<Rightarrow>
                  (case civil_from_days (t div msPerDay) of
                     (y, m, dd) \<Rightarrow> show_int y @ ''/'' @ show_int m @ ''/'' @ show_int dd)),
      getDateStringPlaceholder = ''yyyy/mm/dd'',
      getDateStringFormat =
        (\<lambda>y m. \<lparr>fmt_year_text = show_int y, fmt_year_pos = 0,
                 fmt_month_text = show_int (m + 1), fmt_month_pos = 1\<rparr>),
      getNow = sample_date 2018 0 1\<rparr>"

definition sample_config :: caLINEdar where
  "sample_config =
     \<lparr>MAX_COUNT_YEAR_IN_YEAR_PICKER = 9, MAX_COUNT_DATES_IN_DATE_PICKER = 42,
      ID_DATE_PICKER = ''caLINEdar-date-picker'', ID_MONTH_PICKER = ''caLINEdar-month-picker'',
      ID_YEAR_PICKER = ''caLINEdar-year-picker''\<rparr>"

definition sample_params :: ctor_params where
  "sample_params =
     \<lparr>cp_rtl = False, cp_date = AInt 1514764800, cp_onChange = Some 0, cp_input_value = []\<rparr>"

definition sample_input :: date_input where
  "sample_input = constructor sample_platform sample_calendar sample_params"

text \<open>Two states with the same picked date.\<close>

definition same_picked :: "date_input \<Rightarrow> date_input \<Rightarrow> bool" where
  "same_picked s s' = (unixDate s' = unixDate s \<and> localDate s' = localDate s)"

text \<open>A run on the sample input.\<close>

definition sample_ops :: "operation list" where
  "sample_ops =
     [OpSetDate (AInt 7258118400), OpFocus False False, OpSubscribe ''onChange'' (Some 1),
      OpSetDate (AInt 1519862400), OpCloseCalendar True]"

text \<open>What an array of the store reads back as: the value \<open>getDates\<close> returned for it.\<close>

definition read_back :: "local_date list \<Rightarrow> dates_val \<Rightarrow> dates_result" where
  "read_back h v =
     (case v of VUndefined \<Rightarrow> DUndefined | VNull \<Rightarrow> DNull
      | VArr as \<Rightarrow> DArray (map (\<lambda>a. h ! a) as))"

text \<open>The later state has every object of the earlier one, unchanged, and every
  cache entry of the earlier one that is not \<open>undefined\<close>.\<close>

definition heap_extends :: "date_input \<Rightarrow> date_input \<Rightarrow> bool" where
  "heap_extends s s' =
     (length (heap s) \<le> length (heap s') \<and> take (length (heap s)) (heap s') = heap s)"

definition cache_extends :: "date_input \<Rightarrow> date_input \<Rightarrow> bool" where
  "cache_extends s s' =
     (\<forall>k v. datesCache s k = Some v \<and> v \<noteq> VUndefined \<longrightarrow> datesCache s' k = Some v)"

definition stable :: "date_input \<Rightarrow> date_input \<Rightarrow> bool" where
  "stable s s' = (heap_extends s s' \<and> cache_extends s s' \<and> (cache_wf s \<longrightarrow> cache_wf s'))"

text \<open>A second run on the sample input.\<close>

definition sample_cache_ops :: "operation list" where
  "sample_cache_ops = [OpSetDate (AInt 1519862400), OpFocus False False]"

text \<open>The sample calendar without bounds on the years it converts.\<close>

definition wide_calendar :: calendar where
  "wide_calendar =
     sample_calendar\<lparr>convertJSDate2LocalDate :=
        (\<lambda>y m d. case (y, m, d) of
                    (Num yy, Num mm, Num dd) \<Rightarrow> Some (sample_date yy mm dd)
                  | _ \<Rightarrow> None)\<rparr>"

text \<open>The month, the date and the gray-out mark of the objects a grid refers to.\<close>

definition grid_view :: "local_date list \<Rightarrow> addr option list \<Rightarrow> (int \<times> int \<times> bool) option list" where
  "grid_view h dates =
     map (map_option (\<lambda>a. (ld_month (h ! a), ld_date (h ! a), ld_grayOut (h ! a)))) dates"



text \<open>The sample platform with a \<open>JSON.parse\<close> that knows the values of two
  year pickers: of the years 1996 to 2004 around 2000, and of the years 1900 to 1906
  around 1902.\<close>

definition year_platform :: platform where
  "year_platform =
     sample_platform\<lparr>JSON_parse :=
        parse_known
          [json_year_picker 2000 0 [1996, 1997, 1998, 1999, 2000, 2001, 2002, 2003, 2004],
           json_year_picker 1902 0 [1900, 1901, 1902, 1903, 1904, 1905, 1906]]\<rparr>"

section \<open>Properties of the controller\<close>

subsection \<open>Month navigation\<close>














subsection \<open>The year picker\<close>

lemma years_before_eq: "years_before a i ys = ys @ [a - i .. a - 1]"
proof (induction a i ys rule: years_before.induct)
  case (1 a i ys)
  show ?case
  proof (cases "i > 0")
    case True
    have "[a - i .. a - 1] = (a - i) # [a - (i - 1) .. a - 1]"
      using True by (subst upto_rec1) (simp_all add: algebra_simps)
    with 1[OF True] True show ?thesis by (subst years_before.simps) simp
  next
    case False
    then show ?thesis by (subst years_before.simps) simp
  qed
qed

lemma years_after_eq: "years_after a rest i ys = ys @ [a + i .. a + rest]"
proof (induction a rest i ys rule: years_after.induct)
  case (1 a rest i ys)
  show ?case
  proof (cases "i \<le> rest")
    case True
    have "[a + i .. a + rest] = (a + i) # [a + (i + 1) .. a + rest]"
      using True by (subst upto_rec1) (simp_all add: algebra_simps)
    with 1[OF True] True show ?thesis by (subst years_after.simps) simp
  next
    case False
    then show ?thesis by (subst years_after.simps) simp
  qed
qed


lemma yearBlock_eq:
  assumes "MAX_COUNT_YEAR_IN_YEAR_PICKER cfg \<ge> 1"
  shows "yearBlock cfg a =
    [a - MAX_COUNT_YEAR_IN_YEAR_PICKER cfg div 2 ..
     a - MAX_COUNT_YEAR_IN_YEAR_PICKER cfg div 2 + MAX_COUNT_YEAR_IN_YEAR_PICKER cfg - 1]"
proof -
  let ?C = "MAX_COUNT_YEAR_IN_YEAR_PICKER cfg"
  let ?h = "?C div 2"
  have h: "0 \<le> ?h" "?h \<le> ?C - 1" using assms by auto
  have l: "int (length ([a - ?h .. a - 1] @ [a])) = ?h + 1"
    using h by simp
  have "yearBlock cfg a = [a - ?h .. a - 1] @ [a] @ [a + 1 .. a + (?C - (?h + 1))]"
    unfolding yearBlock_def Let_def years_before_eq years_after_eq
    using l by (simp add: add.commute)
  also have "\<dots> = [a - ?h .. a + (?C - (?h + 1))]"
    using h by (subst (3) upto_split3[of _ a]) simp_all
  finally show ?thesis by (simp add: algebra_simps)
qed

subsection \<open>The RTL flag\<close>

lemma alloc_rtl: "alloc ds (s\<lparr>rtl := b\<rparr>) = (fst (alloc ds s), (snd (alloc ds s))\<lparr>rtl := b\<rparr>)"
  by (simp add: alloc_def)

lemma call_getDates_rtl:
  "call_getDates cal y m (s\<lparr>rtl := b\<rparr>)
     = (fst (call_getDates cal y m s), (snd (call_getDates cal y m s))\<lparr>rtl := b\<rparr>)"
  by (simp add: call_getDates_def alloc_def Let_def split: dates_result.splits)

lemma getDatesWithCache_rtl:
  "getDatesWithCache cal y m (s\<lparr>rtl := b\<rparr>)
     = (fst (getDatesWithCache cal y m s), (snd (getDatesWithCache cal y m s))\<lparr>rtl := b\<rparr>)"
  by (simp add: getDatesWithCache_def cache_lookup_def call_getDates_rtl alloc_def Let_def
      split_beta split: dates_val.splits option.splits)

lemma displayStart_rtl:
  "displayStart cal y m as (s\<lparr>rtl := b\<rparr>)
     = (fst (displayStart cal y m as s), (snd (displayStart cal y m as s))\<lparr>rtl := b\<rparr>)"
  by (simp add: displayStart_def getDatesWithCache_rtl Let_def split_beta
      split: dates_val.splits sum.splits list.splits)

lemma displayTail_rtl:
  "displayTail cfg cal y m ds (s\<lparr>rtl := b\<rparr>)
     = (fst (displayTail cfg cal y m ds s), (snd (displayTail cfg cal y m ds s))\<lparr>rtl := b\<rparr>)"
  by (simp add: displayTail_def getDatesWithCache_rtl Let_def split_beta
      split: dates_val.splits sum.splits)

lemma getLocalDatesToDisplay_rtl:
  "getLocalDatesToDisplay cfg p cal y m dp (s\<lparr>rtl := b\<rparr>)
     = (fst (getLocalDatesToDisplay cfg p cal y m dp s),
        (snd (getLocalDatesToDisplay cfg p cal y m dp s))\<lparr>rtl := b\<rparr>)"
  by (simp add: getLocalDatesToDisplay_def getDatesWithCache_rtl displayStart_rtl displayTail_rtl
      Let_def split_beta split: dates_val.splits sum.splits)

lemma alloc_rtl_same: "rtl (snd (alloc ds s)) = rtl s"
  by (simp add: alloc_def)

lemma getDatesWithCache_rtl_same: "rtl (snd (getDatesWithCache cal y m s)) = rtl s"
  by (simp add: getDatesWithCache_def cache_lookup_def call_getDates_def alloc_def Let_def
      split_beta split: dates_val.splits option.splits dates_result.splits)

lemma getDatePickerParams_rtl:
  "fst (getDatePickerParams cfg p cal y m dp (s\<lparr>rtl := True\<rparr>))
     = map_sum id (\<lambda>q. q\<lparr>dp_noMoreLeft := dp_noMoreRight q, dp_noMoreRight := dp_noMoreLeft q,
                          dp_rtl := True\<rparr>)
         (fst (getDatePickerParams cfg p cal y m dp (s\<lparr>rtl := False\<rparr>)))
   \<and> snd (getDatePickerParams cfg p cal y m dp (s\<lparr>rtl := True\<rparr>))
     = (snd (getDatePickerParams cfg p cal y m dp (s\<lparr>rtl := False\<rparr>)))\<lparr>rtl := True\<rparr>"
  by (simp add: getDatePickerParams_def getLocalDatesToDisplay_rtl Let_def split_beta
      split: sum.splits)

lemma js_nth_upto: "0 \<le> k \<Longrightarrow> i + k \<le> j \<Longrightarrow> js_nth [i..j] k = Some (i + k)"
  using nth_upto[of i "nat k" j] by (simp add: js_nth_def)

text \<open>
  C5. For a block size of at least 1, the years collected by \<open>_getYearPickerParams\<close>
  are the block from \<open>anchorYear - floor(COUNT / 2)\<close> on, \<open>COUNT\<close> years long;
  \<open>noMoreLeft\<close> is true exactly when the year before the first year of the block is
  not in the calendar and \<open>noMoreRight\<close> exactly when the year after its last year is
  not, and under RTL the two flags are exchanged.
\<close>

theorem year_picker_boundary_flags:
  assumes "MAX_COUNT_YEAR_IN_YEAR_PICKER cfg \<ge> 1"
  shows "(let COUNT = MAX_COUNT_YEAR_IN_YEAR_PICKER cfg;
              first = anchorYear - COUNT div 2;
              last = first + COUNT - 1;
              params = getYearPickerParams cfg p cal rtl_flag anchorYear anchorMonth
          in yearBlock cfg anchorYear = [first .. last]
           \<and> yp_noMoreLeft params =
               (if rtl_flag then \<not> isDateInCalendar cal (Num (last + 1)) None
                else \<not> isDateInCalendar cal (Num (first - 1)) None)
           \<and> yp_noMoreRight params =
               (if rtl_flag then \<not> isDateInCalendar cal (Num (first - 1)) None
                else \<not> isDateInCalendar cal (Num (last + 1)) None))"
proof -
  let ?C = "MAX_COUNT_YEAR_IN_YEAR_PICKER cfg"
  let ?first = "anchorYear - ?C div 2"
  let ?last = "?first + ?C - 1"
  have b: "yearBlock cfg anchorYear = [?first .. ?last]"
    using yearBlock_eq[OF assms] .
  have n0: "js_nth [?first .. ?last] 0 = Some ?first"
    using js_nth_upto[of 0 ?first ?last] assms by simp
  have n1: "js_nth [?first .. ?last] (?C - 1) = Some ?last"
    using js_nth_upto[of "?C - 1" ?first ?last] assms by (simp add: algebra_simps)
  show ?thesis
    unfolding Let_def getYearPickerParams_def b n0 n1 js_plus_def
    by (simp add: algebra_simps)
qed

theorem year_picker_boundary_flags_witness:
  "MAX_COUNT_YEAR_IN_YEAR_PICKER sample_config \<ge> 1
   \<and> yearBlock sample_config 2096 = [2092 .. 2100]
   \<and> yp_noMoreLeft (getYearPickerParams sample_config sample_platform sample_calendar False 2096 0)
       = False
   \<and> yp_noMoreRight (getYearPickerParams sample_config sample_platform sample_calendar False 2096 0)
       = True"
proof -
  have h: "MAX_COUNT_YEAR_IN_YEAR_PICKER sample_config \<ge> 1" by (simp add: sample_config_def)
  have c: "MAX_COUNT_YEAR_IN_YEAR_PICKER sample_config = 9" by (simp add: sample_config_def)
  from year_picker_boundary_flags[OF h, of 2096 sample_platform sample_calendar False 0] h
  show ?thesis
    by (simp add: Let_def c sample_calendar_def sample_in_calendar_def)
qed

lemma click_year_picker:
  assumes ids: "ID_YEAR_PICKER cfg \<noteq> ID_DATE_PICKER cfg"
    and parse: "JSON_parse p str = Some (json_year_picker a m ys)"
    and dir: "dir = ''left'' \<or> dir = ''right''"
  shows "onPickerClick cfg p cal \<lparr>p_id = ID_YEAR_PICKER cfg, p_value = Some str\<rparr>
           \<lparr>t_classList = [''caLINEdar-panel__btn'', dir @ ''-btn''], t_tagName = ''DIV'',
            t_value = None\<rparr> s
         = flipYearPicker cfg p cal a m (map JNum ys) dir s"
  using assms
  by (auto simp add: onPickerClick_def onPanelButtonClick_def unserializeValue_def
      json_year_picker_def get_int_def get_array_def bindE_def args3_def args2_def Let_def)

lemma shown_years:
  "map yc_value (yp_years (getYearPickerParams cfg p cal rtl_flag anchorYear anchorMonth))
     = filter (\<lambda>y. isDateInCalendar cal (Num y) None) (yearBlock cfg anchorYear)"
  by (simp add: getYearPickerParams_def Let_def comp_def)

lemma year_picker_value:
  "yp_value (getYearPickerParams cfg p cal rtl_flag anchorYear anchorMonth)
     = serializeValue p (json_year_picker anchorYear anchorMonth
         (filter (\<lambda>y. isDateInCalendar cal (Num y) None) (yearBlock cfg anchorYear)))"
  by (simp add: getYearPickerParams_def Let_def)

lemma sample_input_rtl: "rtl sample_input = False"
  by (simp add: sample_input_def constructor_def sample_params_def setDateOrClear_def
      setDate_def clearDate_def subscribe_def Let_def split: option.splits prod.splits)

lemma year_platform_1902: "JSON_parse year_platform (JSON_stringify year_platform
         (json_year_picker 1902 0 [1900, 1901, 1902, 1903, 1904, 1905, 1906]))
       = Some (json_year_picker 1902 0 [1900, 1901, 1902, 1903, 1904, 1905, 1906])"
  by code_simp

text \<open>
  C6, as the claim states it, fails near a boundary of the calendar: in the sample
  calendar (years 1900 to 2100) with blocks of 9 years and the anchor 1902, the
  picker shows the 7 years 1900 to 1906, navigation to the right is not blocked,
  and a click on the right button moves the anchor by 7 years to 1909, not by 9 to
  1911.
\<close>

theorem year_picker_step_counterexample:
  "\<not> yp_noMoreRight (getYearPickerParams sample_config year_platform sample_calendar False 1902 0)
   \<and> map yc_value (yp_years (getYearPickerParams sample_config year_platform sample_calendar False 1902 0))
       = [1900, 1901, 1902, 1903, 1904, 1905, 1906]
   \<and> flipYearPickerAnchor False 1902
        (yp_years (getYearPickerParams sample_config year_platform sample_calendar False 1902 0))
        ''right''
      = 1909
   \<and> fst (onPickerClick sample_config year_platform sample_calendar
         \<lparr>p_id = ID_YEAR_PICKER sample_config,
          p_value = Some (yp_value
            (getYearPickerParams sample_config year_platform sample_calendar False 1902 0))\<rparr>
         \<lparr>t_classList = [''caLINEdar-panel__btn'', ''right-btn''], t_tagName = ''DIV'',
          t_value = None\<rparr> sample_input)
       = Inr ()
   \<and> rendered (snd (onPickerClick sample_config year_platform sample_calendar
         \<lparr>p_id = ID_YEAR_PICKER sample_config,
          p_value = Some (yp_value
            (getYearPickerParams sample_config year_platform sample_calendar False 1902 0))\<rparr>
         \<lparr>t_classList = [''caLINEdar-panel__btn'', ''right-btn''], t_tagName = ''DIV'',
          t_value = None\<rparr> sample_input))
       = rendered sample_input @
           [ShowYearPicker
              (getYearPickerParams sample_config year_platform sample_calendar False 1909 0)]
   \<and> 1909 \<noteq> 1902 + MAX_COUNT_YEAR_IN_YEAR_PICKER sample_config"
proof -
  have h: "MAX_COUNT_YEAR_IN_YEAR_PICKER sample_config \<ge> 1" by (simp add: sample_config_def)
  have c: "MAX_COUNT_YEAR_IN_YEAR_PICKER sample_config = 9" by (simp add: sample_config_def)
  have ids: "ID_YEAR_PICKER sample_config \<noteq> ID_DATE_PICKER sample_config"
    by (simp add: sample_config_def)
  have b: "yearBlock sample_config 1902 = [1898, 1899, 1900, 1901, 1902, 1903, 1904, 1905, 1906]"
    unfolding yearBlock_eq[OF h] c by (simp add: upto.simps)
  have f: "filter (\<lambda>y. isDateInCalendar sample_calendar (Num y) None) (yearBlock sample_config 1902)
       = [1900, 1901, 1902, 1903, 1904, 1905, 1906]"
    unfolding b by (simp add: sample_calendar_def sample_in_calendar_def)
  have sh: "map yc_value (yp_years (getYearPickerParams sample_config year_platform sample_calendar False 1902 0))
       = [1900, 1901, 1902, 1903, 1904, 1905, 1906]"
    unfolding shown_years f ..
  have len: "length (yp_years (getYearPickerParams sample_config year_platform sample_calendar False 1902 0)) = 7"
    using arg_cong[OF sh, of length] by simp
  have p': "JSON_parse year_platform
       (yp_value (getYearPickerParams sample_config year_platform sample_calendar False 1902 0))
       = Some (json_year_picker 1902 0 [1900, 1901, 1902, 1903, 1904, 1905, 1906])"
    unfolding year_picker_value f serializeValue_def by (rule year_platform_1902)
  have nr: "\<not> yp_noMoreRight (getYearPickerParams sample_config year_platform sample_calendar False 1902 0)"
    by (simp add: getYearPickerParams_def Let_def b c js_nth_def js_plus_def
        sample_calendar_def sample_in_calendar_def)
  have fl: "flipYearPickerAnchor False 1902
        (yp_years (getYearPickerParams sample_config year_platform sample_calendar False 1902 0))
        ''right'' = 1909"
    by (simp add: flipYearPickerAnchor_def len)
  have cl: "onPickerClick sample_config year_platform sample_calendar
         \<lparr>p_id = ID_YEAR_PICKER sample_config,
          p_value = Some (yp_value
            (getYearPickerParams sample_config year_platform sample_calendar False 1902 0))\<rparr>
         \<lparr>t_classList = [''caLINEdar-panel__btn'', ''right-btn''], t_tagName = ''DIV'',
          t_value = None\<rparr> sample_input
       = (Inr (), sample_input\<lparr>rendered := rendered sample_input @
            [ShowYearPicker
               (getYearPickerParams sample_config year_platform sample_calendar False 1909 0)]\<rparr>)"
    using click_year_picker[OF ids p', of "''right''" sample_calendar sample_input]
    by (simp add: flipYearPicker_def flipYearPickerAnchor_def showYearPicker_def
        render_request_def sample_input_rtl)
  from nr sh fl cl show ?thesis by (simp add: c)
qed

text \<open>
  C6, amended. Let the block size be at least 1, let the year picker and the date
  picker have different ids, and let \<open>JSON.parse\<close> read back the value that
  \<open>_getYearPickerParams\<close> serialises. The years the picker shows are those of the
  block from \<open>floor(COUNT / 2)\<close> years before the anchor to
  \<open>COUNT - floor(COUNT / 2) - 1\<close> years after it that are in the calendar, so at most
  \<open>COUNT\<close> years, and exactly \<open>COUNT\<close> when the whole block is in the calendar; the
  value of the picker holds the anchor and these years. A click on the right or on
  the left button of the year picker that carries this value asks for the year
  picker of the anchor moved by the number of years shown, in the direction of the
  click (the opposite one under RTL), and changes nothing else.
  \<open>_flipYearPicker\<close> itself moves the anchor by the length of the list it is given.
\<close>

theorem year_picker_step:
  assumes count: "MAX_COUNT_YEAR_IN_YEAR_PICKER cfg \<ge> 1"
    and ids: "ID_YEAR_PICKER cfg \<noteq> ID_DATE_PICKER cfg"
    and parse:
      "JSON_parse p (JSON_stringify p (json_year_picker anchorYear anchorMonth
          (filter (\<lambda>y. isDateInCalendar cal (Num y) None) (yearBlock cfg anchorYear))))
       = Some (json_year_picker anchorYear anchorMonth
          (filter (\<lambda>y. isDateInCalendar cal (Num y) None) (yearBlock cfg anchorYear)))"
  shows "(let COUNT = MAX_COUNT_YEAR_IN_YEAR_PICKER cfg;
              first = anchorYear - COUNT div 2;
              last = first + COUNT - 1;
              params = getYearPickerParams cfg p cal (rtl s) anchorYear anchorMonth;
              shown = map yc_value (yp_years params);
              step = int (length shown);
              picker = \<lparr>p_id = ID_YEAR_PICKER cfg, p_value = Some (yp_value params)\<rparr>;
              button = (\<lambda>c. \<lparr>t_classList = [''caLINEdar-panel__btn'', c], t_tagName = ''DIV'',
                              t_value = None\<rparr>);
              moved = (\<lambda>anchor. (Inr (), s\<lparr>rendered := rendered s @
                         [ShowYearPicker (getYearPickerParams cfg p cal (rtl s) anchor anchorMonth)]\<rparr>))
          in yearBlock cfg anchorYear = [first .. last]
           \<and> shown = filter (\<lambda>y. isDateInCalendar cal (Num y) None) [first .. last]
           \<and> yp_value params = serializeValue p (json_year_picker anchorYear anchorMonth shown)
           \<and> step \<le> COUNT
           \<and> ((\<forall>y \<in> set [first .. last]. isDateInCalendar cal (Num y) None) \<longrightarrow> step = COUNT)
           \<and> onPickerClick cfg p cal picker (button ''right-btn'') s
               = moved (if rtl s then anchorYear - step else anchorYear + step)
           \<and> onPickerClick cfg p cal picker (button ''left-btn'') s
               = moved (if rtl s then anchorYear + step else anchorYear - step))
       \<and> flipYearPickerAnchor rtl_flag anchorYear years ''right''
           = (if rtl_flag then anchorYear - int (length years) else anchorYear + int (length years))
       \<and> flipYearPickerAnchor rtl_flag anchorYear years ''left''
           = (if rtl_flag then anchorYear + int (length years) else anchorYear - int (length years))"
proof -
  let ?C = "MAX_COUNT_YEAR_IN_YEAR_PICKER cfg"
  let ?first = "anchorYear - ?C div 2"
  let ?last = "?first + ?C - 1"
  let ?P = "\<lambda>y. isDateInCalendar cal (Num y) None"
  let ?params = "getYearPickerParams cfg p cal (rtl s) anchorYear anchorMonth"
  let ?shown = "map yc_value (yp_years ?params)"
  have blk: "yearBlock cfg anchorYear = [?first .. ?last]" using yearBlock_eq[OF count] .
  have sh: "?shown = filter ?P [?first .. ?last]"
    unfolding shown_years blk ..
  have v: "yp_value ?params = serializeValue p (json_year_picker anchorYear anchorMonth ?shown)"
    unfolding shown_years by (rule year_picker_value)
  have le: "int (length ?shown) \<le> ?C"
  proof -
    have "length (filter ?P [?first .. ?last]) \<le> length [?first .. ?last]"
      by (rule length_filter_le)
    moreover have "int (length [?first .. ?last]) = ?C" using count by simp
    ultimately show ?thesis unfolding sh by linarith
  qed
  have all: "int (length ?shown) = ?C" if "\<forall>y \<in> set [?first .. ?last]. ?P y"
  proof -
    have "filter ?P [?first .. ?last] = [?first .. ?last]" using that by (simp only: filter_True)
    then show ?thesis unfolding sh using count by simp
  qed
  have p': "JSON_parse p (yp_value ?params) = Some (json_year_picker anchorYear anchorMonth ?shown)"
    unfolding shown_years year_picker_value serializeValue_def using parse .
  have r: "onPickerClick cfg p cal \<lparr>p_id = ID_YEAR_PICKER cfg, p_value = Some (yp_value ?params)\<rparr>
             \<lparr>t_classList = [''caLINEdar-panel__btn'', ''right-btn''], t_tagName = ''DIV'',
              t_value = None\<rparr> s
           = (Inr (), s\<lparr>rendered := rendered s @
                [ShowYearPicker (getYearPickerParams cfg p cal (rtl s)
                   (if rtl s then anchorYear - int (length ?shown)
                    else anchorYear + int (length ?shown)) anchorMonth)]\<rparr>)"
    using click_year_picker[OF ids p', of "''right''" cal s]
    by (simp add: flipYearPicker_def flipYearPickerAnchor_def showYearPicker_def
        render_request_def)
  have l: "onPickerClick cfg p cal \<lparr>p_id = ID_YEAR_PICKER cfg, p_value = Some (yp_value ?params)\<rparr>
             \<lparr>t_classList = [''caLINEdar-panel__btn'', ''left-btn''], t_tagName = ''DIV'',
              t_value = None\<rparr> s
           = (Inr (), s\<lparr>rendered := rendered s @
                [ShowYearPicker (getYearPickerParams cfg p cal (rtl s)
                   (if rtl s then anchorYear + int (length ?shown)
                    else anchorYear - int (length ?shown)) anchorMonth)]\<rparr>)"
    using click_year_picker[OF ids p', of "''left''" cal s]
    by (simp add: flipYearPicker_def flipYearPickerAnchor_def showYearPicker_def
        render_request_def)
  have a: "flipYearPickerAnchor rtl_flag anchorYear years ''right''
     = (if rtl_flag then anchorYear - int (length years) else anchorYear + int (length years))"
    by (simp add: flipYearPickerAnchor_def)
  have b: "flipYearPickerAnchor rtl_flag anchorYear years ''left''
     = (if rtl_flag then anchorYear + int (length years) else anchorYear - int (length years))"
    by (simp add: flipYearPickerAnchor_def)
  show ?thesis
    unfolding Let_def
    apply (intro conjI impI)
    subgoal by (rule blk)
    subgoal by (rule sh)
    subgoal by (rule v)
    subgoal by (rule le)
    subgoal using all by blast
    subgoal by (rule r)
    subgoal by (rule l)
    subgoal by (rule a)
    subgoal by (rule b)
    done
qed


theorem year_picker_step_witness:
  "MAX_COUNT_YEAR_IN_YEAR_PICKER sample_config \<ge> 1
   \<and> ID_YEAR_PICKER sample_config \<noteq> ID_DATE_PICKER sample_config
   \<and> filter (\<lambda>y. isDateInCalendar sample_calendar (Num y) None) (yearBlock sample_config 2000)
       = [1996, 1997, 1998, 1999, 2000, 2001, 2002, 2003, 2004]
   \<and> JSON_parse year_platform (JSON_stringify year_platform
         (json_year_picker 2000 0 [1996, 1997, 1998, 1999, 2000, 2001, 2002, 2003, 2004]))
       = Some (json_year_picker 2000 0 [1996, 1997, 1998, 1999, 2000, 2001, 2002, 2003, 2004])
   \<and> filter (\<lambda>y. isDateInCalendar sample_calendar (Num y) None) [1996 .. 2004] = [1996 .. 2004]
   \<and> int (length (yp_years
         (getYearPickerParams sample_config year_platform sample_calendar False 2000 0)))
       = MAX_COUNT_YEAR_IN_YEAR_PICKER sample_config
   \<and> onPickerClick sample_config year_platform sample_calendar
         \<lparr>p_id = ID_YEAR_PICKER sample_config,
          p_value = Some (yp_value
            (getYearPickerParams sample_config year_platform sample_calendar False 2000 0))\<rparr>
         \<lparr>t_classList = [''caLINEdar-panel__btn'', ''right-btn''], t_tagName = ''DIV'',
          t_value = None\<rparr> sample_input
       = (Inr (), sample_input\<lparr>rendered := rendered sample_input @
            [ShowYearPicker
               (getYearPickerParams sample_config year_platform sample_calendar False 2009 0)]\<rparr>)"
proof -
  have c: "MAX_COUNT_YEAR_IN_YEAR_PICKER sample_config = 9" by (simp add: sample_config_def)
  have h: "MAX_COUNT_YEAR_IN_YEAR_PICKER sample_config \<ge> 1" by (simp add: c)
  have ids: "ID_YEAR_PICKER sample_config \<noteq> ID_DATE_PICKER sample_config"
    by (simp add: sample_config_def)
  have u: "[1996 .. 2004] = [1996, 1997, 1998, 1999, 2000, 2001, 2002, 2003, 2004::int]"
    by (simp add: upto.simps)
  have b: "yearBlock sample_config 2000 = [1996 .. 2004]"
    unfolding yearBlock_eq[OF h] c by simp
  have i: "filter (\<lambda>y. isDateInCalendar sample_calendar (Num y) None) [1996 .. 2004]
       = [1996 .. 2004]"
    unfolding u by (simp add: sample_calendar_def sample_in_calendar_def)
  have i': "\<forall>y \<in> {1996 .. 2004}. isDateInCalendar sample_calendar (Num y) None"
    by (simp add: sample_calendar_def sample_in_calendar_def)
  have f: "filter (\<lambda>y. isDateInCalendar sample_calendar (Num y) None) (yearBlock sample_config 2000)
       = [1996, 1997, 1998, 1999, 2000, 2001, 2002, 2003, 2004]"
    by (simp only: b i) (rule u)
  have ps: "JSON_parse year_platform (JSON_stringify year_platform
         (json_year_picker 2000 0 [1996, 1997, 1998, 1999, 2000, 2001, 2002, 2003, 2004]))
       = Some (json_year_picker 2000 0 [1996, 1997, 1998, 1999, 2000, 2001, 2002, 2003, 2004])"
    by (simp add: year_platform_def sample_platform_def parse_known_def)
  have ps': "JSON_parse year_platform (JSON_stringify year_platform (json_year_picker 2000 0
          (filter (\<lambda>y. isDateInCalendar sample_calendar (Num y) None) (yearBlock sample_config 2000))))
       = Some (json_year_picker 2000 0
          (filter (\<lambda>y. isDateInCalendar sample_calendar (Num y) None) (yearBlock sample_config 2000)))"
    unfolding f by (rule ps)
  from year_picker_step[OF h ids ps', of sample_input False "[]"] h ids f ps i i'
  show ?thesis
    by (clarsimp simp add: c Let_def sample_input_rtl)
qed

text \<open>
  C7. With the RTL flag set, a click left goes to the month, or to the anchor year,
  that a click right goes to without the flag, and a click right to that of a click
  left. The parameters of the year picker and of the date picker are the same with
  and without the flag but for \<open>noMoreLeft\<close> and \<open>noMoreRight\<close>, which are
  exchanged, and the flag itself: the dates, the years and their order do not depend
  on it, and neither do the errors nor the state left.
\<close>

theorem rtl_swaps_direction:
  "flipDatePickerTarget cal True year month ''left''
     = flipDatePickerTarget cal False year month ''right''
   \<and> flipDatePickerTarget cal True year month ''right''
     = flipDatePickerTarget cal False year month ''left''
   \<and> flipYearPickerAnchor True anchorYear years ''left''
     = flipYearPickerAnchor False anchorYear years ''right''
   \<and> flipYearPickerAnchor True anchorYear years ''right''
     = flipYearPickerAnchor False anchorYear years ''left''
   \<and> getYearPickerParams cfg p cal True anchorYear anchorMonth
     = (let q = getYearPickerParams cfg p cal False anchorYear anchorMonth
        in q\<lparr>yp_noMoreLeft := yp_noMoreRight q, yp_noMoreRight := yp_noMoreLeft q,
             yp_rtl := True\<rparr>)
   \<and> fst (getDatePickerParams cfg p cal year month datePicked (s\<lparr>rtl := True\<rparr>))
     = map_sum id (\<lambda>q. q\<lparr>dp_noMoreLeft := dp_noMoreRight q, dp_noMoreRight := dp_noMoreLeft q,
                          dp_rtl := True\<rparr>)
         (fst (getDatePickerParams cfg p cal year month datePicked (s\<lparr>rtl := False\<rparr>)))
   \<and> snd (getDatePickerParams cfg p cal year month datePicked (s\<lparr>rtl := True\<rparr>))
     = (snd (getDatePickerParams cfg p cal year month datePicked (s\<lparr>rtl := False\<rparr>)))\<lparr>rtl := True\<rparr>"
proof -
  have a: "flipDatePickerTarget cal True year month ''left''
     = flipDatePickerTarget cal False year month ''right''"
    "flipDatePickerTarget cal True year month ''right''
     = flipDatePickerTarget cal False year month ''left''"
    by (simp_all add: flipDatePickerTarget_def)
  have b: "flipYearPickerAnchor True anchorYear years ''left''
     = flipYearPickerAnchor False anchorYear years ''right''"
    "flipYearPickerAnchor True anchorYear years ''right''
     = flipYearPickerAnchor False anchorYear years ''left''"
    by (simp_all add: flipYearPickerAnchor_def)
  have c: "getYearPickerParams cfg p cal True anchorYear anchorMonth
     = (let q = getYearPickerParams cfg p cal False anchorYear anchorMonth
        in q\<lparr>yp_noMoreLeft := yp_noMoreRight q, yp_noMoreRight := yp_noMoreLeft q,
             yp_rtl := True\<rparr>)"
    by (simp add: getYearPickerParams_def Let_def)
  from a b c getDatePickerParams_rtl[of cfg p cal year month datePicked s]
  show ?thesis by simp
qed

theorem rtl_swaps_direction_witness:
  "flipDatePickerTarget sample_calendar True 2018 11 ''left''
     = Inr \<lparr>ym_year = 2019, ym_month = 0\<rparr>
   \<and> flipDatePickerTarget sample_calendar False 2018 11 ''right''
     = Inr \<lparr>ym_year = 2019, ym_month = 0\<rparr>
   \<and> flipYearPickerAnchor True 2096 [2000, 2001 :: int] ''left'' = 2098
   \<and> flipYearPickerAnchor False 2096 [2000, 2001 :: int] ''right'' = 2098
   \<and> yp_noMoreLeft (getYearPickerParams sample_config sample_platform sample_calendar True 2096 0)
       = yp_noMoreRight (getYearPickerParams sample_config sample_platform sample_calendar False 2096 0)"
proof -
  have t: "flipDatePickerTarget sample_calendar False 2018 11 ''right''
       = Inr \<lparr>ym_year = 2019, ym_month = 0\<rparr>"
    by (simp add: flipDatePickerTarget_def sample_calendar_def sample_months_def
        calcNextLocalMonth_def js_nth_def)
  have y: "flipYearPickerAnchor False 2096 [2000, 2001 :: int] ''right'' = 2098"
    by (simp add: flipYearPickerAnchor_def)
  from rtl_swaps_direction[where cal = sample_calendar and year = 2018 and month = 11
      and anchorYear = 2096 and years = "[2000, 2001 :: int]" and cfg = sample_config
      and p = sample_platform and anchorMonth = 0 and datePicked = None and s = sample_input] t y
  show ?thesis by (simp add: Let_def)
qed

subsection \<open>The picked date\<close>


lemma setDate_fields:
  "setDate p cal date s = (ok, s') \<Longrightarrow>
     (if ok then unixDate s' \<noteq> None \<and> localDate s' \<noteq> None \<and> picked_consistent p cal s'
      else unixDate s' = unixDate s \<and> localDate s' = localDate s)"
  by (auto simp: setDate_def picked_consistent_def Let_def split: option.splits date_arg.splits)

lemma setDate_consistent:
  "picked_consistent p cal s \<Longrightarrow> picked_consistent p cal (snd (setDate p cal date s))"
  by (auto simp: setDate_def picked_consistent_def Let_def split: option.splits date_arg.splits)

lemma clearDate_consistent: "picked_consistent p cal (clearDate cal s)"
  by (simp add: clearDate_def picked_consistent_def)

lemma setDateOrClear_consistent: "picked_consistent p cal (setDateOrClear p cal date s)"
  by (auto simp: setDateOrClear_def setDate_def clearDate_def picked_consistent_def Let_def
      split: option.splits date_arg.splits)

lemma same_picked_consistent:
  "same_picked s s' \<Longrightarrow> picked_consistent p cal s \<Longrightarrow> picked_consistent p cal s'"
  by (auto simp: same_picked_def picked_consistent_def split: option.splits)

lemma same_picked_refl [simp]: "same_picked s s"
  by (simp add: same_picked_def)

lemma same_picked_trans: "same_picked s s' \<Longrightarrow> same_picked s' s'' \<Longrightarrow> same_picked s s''"
  by (simp add: same_picked_def)

lemma getDatesWithCache_picked: "same_picked s (snd (getDatesWithCache cal y m s))"
  by (simp add: same_picked_def getDatesWithCache_def cache_lookup_def call_getDates_def
      alloc_def Let_def split_beta split: dates_val.splits option.splits dates_result.splits)

lemma displayStart_picked: "same_picked s (snd (displayStart cal y m as s))"
  using getDatesWithCache_picked[of s cal]
  by (simp add: same_picked_def displayStart_def Let_def split_beta
      split: dates_val.splits sum.splits list.splits)

lemma displayTail_picked: "same_picked s (snd (displayTail cfg cal y m ds s))"
  using getDatesWithCache_picked[of s cal]
  by (simp add: same_picked_def displayTail_def Let_def split_beta
      split: dates_val.splits sum.splits)

lemma getLocalDatesToDisplay_picked:
  "same_picked s (snd (getLocalDatesToDisplay cfg p cal y m dp s))"
proof -
  obtain d0 s1 where g: "getDatesWithCache cal y m s = (d0, s1)" by (cases "getDatesWithCache cal y m s")
  have 1: "same_picked s s1" using getDatesWithCache_picked[of s cal y m] g by simp
  show ?thesis
  proof (cases d0)
    case (VArr as)
    obtain r2 s2 where ds: "displayStart cal y m as s1 = (r2, s2)" by (cases "displayStart cal y m as s1")
    have 2: "same_picked s1 s2" using displayStart_picked[of s1 cal y m as] ds by simp
    show ?thesis
    proof (cases r2)
      case (Inl e)
      then show ?thesis using g VArr ds same_picked_trans[OF 1 2]
        by (simp add: getLocalDatesToDisplay_def)
    next
      case (Inr dates1)
      obtain r3 s3 where dt: "displayTail cfg cal y m dates1 s2 = (r3, s3)"
        by (cases "displayTail cfg cal y m dates1 s2")
      have 3: "same_picked s2 s3" using displayTail_picked[of s2 cfg cal y m dates1] dt by simp
      have "same_picked s s3" using same_picked_trans[OF same_picked_trans[OF 1 2] 3] .
      then show ?thesis using g VArr ds Inr dt
        by (cases r3) (simp_all add: getLocalDatesToDisplay_def same_picked_def)
    qed
  qed (use g 1 in \<open>simp_all add: getLocalDatesToDisplay_def\<close>)
qed

lemma getDatePickerParams_picked:
  "same_picked s (snd (getDatePickerParams cfg p cal y m dp s))"
  using getLocalDatesToDisplay_picked[of s cfg p cal y m dp]
  by (simp add: getDatePickerParams_def Let_def split_beta split: sum.splits)

lemma render_request_picked: "same_picked s (render_request r s)"
  by (simp add: render_request_def same_picked_def)

lemma notify_picked: "same_picked s (notify s)"
  by (simp add: notify_def same_picked_def)

lemma showDatePicker_picked: "same_picked s (snd (showDatePicker cfg p cal y m dp s))"
  using getDatePickerParams_picked[of s cfg p cal y m dp]
  by (simp add: showDatePicker_def render_request_def same_picked_def split_beta split: sum.splits)

lemma showMonthPicker_picked: "same_picked s (snd (showMonthPicker p cal y m s))"
  by (simp add: showMonthPicker_def render_request_def same_picked_def)

lemma showYearPicker_picked: "same_picked s (snd (showYearPicker cfg p cal y m s))"
  by (simp add: showYearPicker_def render_request_def same_picked_def)

lemma flipDatePicker_picked: "same_picked s (snd (flipDatePicker cfg p cal y m dir s))"
proof (cases "flipDatePickerTarget cal (rtl s) y m dir")
  case (Inl e)
  then show ?thesis by (simp add: flipDatePicker_def)
next
  case (Inr t)
  then show ?thesis
    using getDatePickerParams_picked[of s cfg p cal "ym_year t" "ym_month t" "localDate s"]
    by (simp add: flipDatePicker_def render_request_def same_picked_def split_beta split: sum.splits)
qed

lemma flipYearPicker_picked: "same_picked s (snd (flipYearPicker cfg p cal y m ys dir s))"
  by (simp add: flipYearPicker_def showYearPicker_picked)

lemma args2_picked:
  "(\<And>x y. same_picked s (snd (f x y s))) \<Longrightarrow> same_picked s (snd (args2 a b f s))"
  by (simp add: args2_def split: sum.splits)

lemma args3_picked:
  "(\<And>x y z. same_picked s (snd (f x y z s))) \<Longrightarrow> same_picked s (snd (args3 a b c f s))"
  by (simp add: args3_def args2_picked split: sum.splits)

lemma onPanelButtonClick_picked:
  "same_picked s (snd (onPanelButtonClick cfg p cal picker target s))"
  unfolding onPanelButtonClick_def Let_def
  by (auto intro!: args2_picked args3_picked showYearPicker_picked showMonthPicker_picked
        flipDatePicker_picked flipYearPicker_picked)

lemma args2_consistent:
  "picked_consistent p cal s \<Longrightarrow> (\<And>x y. picked_consistent p cal (snd (f x y s)))
     \<Longrightarrow> picked_consistent p cal (snd (args2 a b f s))"
  by (simp add: args2_def split: sum.splits)

lemma args3_consistent:
  "picked_consistent p cal s \<Longrightarrow> (\<And>x y z. picked_consistent p cal (snd (f x y z s)))
     \<Longrightarrow> picked_consistent p cal (snd (args3 a b c f s))"
  by (simp add: args3_def args2_consistent split: sum.splits)

lemma pickDate_consistent:
  assumes "picked_consistent p cal s"
  shows "picked_consistent p cal (snd (pickDate cfg p cal y m d s))"
proof (cases "convertLocalDate2JSDate cal y m d")
  case None
  then show ?thesis using assms by (simp add: pickDate_def)
next
  case (Some jsDate)
  let ?d = "ADate (new_Date_ymd p (Num (js_year jsDate)) (Num (js_month jsDate)) (Num (js_date jsDate)))"
  obtain ok s1 where sd: "setDate p cal ?d s = (ok, s1)" by (cases "setDate p cal ?d s")
  have c1: "picked_consistent p cal s1" using setDate_consistent[OF assms, of ?d] sd by simp
  show ?thesis
  proof (cases ok)
    case False
    then show ?thesis using Some sd c1 by (simp add: pickDate_def Let_def)
  next
    case True
    show ?thesis
    proof (cases "localDate s1")
      case None
      then show ?thesis using Some sd c1 True by (simp add: pickDate_def Let_def)
    next
      case (Some l)
      obtain r2 s2 where sh: "showDatePicker cfg p cal (ld_year l) (ld_month l) (Some l) s1 = (r2, s2)"
        by (cases "showDatePicker cfg p cal (ld_year l) (ld_month l) (Some l) s1")
      have "same_picked s1 s2" using showDatePicker_picked[of s1 cfg p cal "ld_year l" "ld_month l" "Some l"] sh by simp
      then have c2: "picked_consistent p cal s2" using c1 same_picked_consistent by blast
      then have c3: "picked_consistent p cal (notify s2)"
        using notify_picked same_picked_consistent by blast
      show ?thesis using \<open>convertLocalDate2JSDate cal y m d = Some jsDate\<close> sd True Some sh c2 c3
        by (cases r2) (simp_all add: pickDate_def Let_def)
    qed
  qed
qed

lemma onPick_consistent:
  assumes "picked_consistent p cal s"
  shows "picked_consistent p cal (snd (onPick cfg p cal picker target s))"
  unfolding onPick_def Let_def
  by (auto split: option.splits intro!: assms args2_consistent args3_consistent pickDate_consistent
      same_picked_consistent[OF showDatePicker_picked assms])

lemma openCalendar_picked: "same_picked s (openCalendar a b s)"
  by (simp add: openCalendar_def render_request_picked)

lemma subscribe_picked: "same_picked s (subscribe e h s)"
  by (simp add: subscribe_def same_picked_def split: option.splits)

lemma unsubscribe_picked: "same_picked s (unsubscribe e h s)"
  by (simp add: unsubscribe_def same_picked_def split: option.splits)

lemma openCalendarFrame_picked: "same_picked s (snd (openCalendarFrame cfg p cal s))"
proof -
  let ?l = "case localDate s of Some l \<Rightarrow> l | None \<Rightarrow> getNow cal"
  obtain r s' where g: "getDatePickerParams cfg p cal (ld_year ?l) (ld_month ?l) (localDate s) s = (r, s')"
    by (cases "getDatePickerParams cfg p cal (ld_year ?l) (ld_month ?l) (localDate s) s")
  have 1: "same_picked s s'"
    using getDatePickerParams_picked[of s cfg p cal "ld_year ?l" "ld_month ?l" "localDate s"] g
    by simp
  show ?thesis using g 1 same_picked_trans[OF 1 render_request_picked]
    by (cases r) (simp_all add: openCalendarFrame_def Let_def)
qed

lemma closeCalendar_consistent:
  "picked_consistent p cal s \<Longrightarrow> picked_consistent p cal (closeCalendar p cal c s)"
  using same_picked_consistent[OF render_request_picked setDateOrClear_consistent]
  by (simp add: closeCalendar_def)

lemma perform_consistent:
  assumes "picked_consistent p cal s"
  shows "picked_consistent p cal (perform cfg p cal x s)"
proof (cases x)
  case (OpSetDate d)
  then show ?thesis using setDate_consistent[OF assms] by simp
next
  case OpClearDate
  then show ?thesis by (simp add: clearDate_consistent)
next
  case (OpOpenCalendar a b)
  then show ?thesis using same_picked_consistent[OF openCalendar_picked assms] by simp
next
  case OpOpenCalendarFrame
  then show ?thesis using same_picked_consistent[OF openCalendarFrame_picked assms] by simp
next
  case (OpCloseCalendar c)
  then show ?thesis using closeCalendar_consistent[OF assms] by simp
next
  case (OpSubscribe e h)
  then show ?thesis using same_picked_consistent[OF subscribe_picked assms] by simp
next
  case (OpUnsubscribe e h)
  then show ?thesis using same_picked_consistent[OF unsubscribe_picked assms] by simp
next
  case (OpFocus a b)
  then show ?thesis using same_picked_consistent[OF openCalendar_picked assms]
    by (simp add: onFocus_def)
next
  case (OpClickOutside c)
  then show ?thesis using closeCalendar_consistent[OF assms] by (simp add: onClickOutside_def)
next
  case OpClearBtnClick
  then show ?thesis
    using same_picked_consistent[OF notify_picked clearDate_consistent]
    by (simp add: onClearBtnClick_def)
next
  case (OpPickerClick picker target)
  then show ?thesis
    using assms onPick_consistent[OF assms]
      same_picked_consistent[OF onPanelButtonClick_picked assms]
    by (simp add: onPickerClick_def)
qed

lemma run_consistent:
  "picked_consistent p cal s \<Longrightarrow> picked_consistent p cal (run cfg p cal ops s)"
  by (induction ops arbitrary: s) (simp_all add: perform_consistent)

lemma constructor_consistent: "picked_consistent p cal (constructor p cal params)"
  unfolding constructor_def Let_def
  by (rule same_picked_consistent[OF subscribe_picked setDateOrClear_consistent])

lemma picked_consistent_getDate:
  "picked_consistent p cal s \<Longrightarrow> (getDate s = None) = (localDate s = None)"
  by (auto simp: picked_consistent_def getDate_def split: option.splits)

text \<open>
  C2. After the constructor and after any run of public operations and event
  handlers, also those that throw, the picked date is consistent: the stored date
  and the local date are both \<open>null\<close>, or neither is and the local date is what the
  calendar converts the year, month and day of the stored date to; \<open>getDate()\<close> is
  \<open>null\<close> exactly when the local date is. \<open>setDate\<close> sets both fields when it
  returns true and leaves both as they were when it returns false, and
  \<open>clearDate\<close> makes both \<open>null\<close>.
\<close>

theorem picked_date_invariant:
  "picked_consistent p cal (constructor p cal params)
   \<and> picked_consistent p cal (run cfg p cal ops (constructor p cal params))
   \<and> (getDate (run cfg p cal ops (constructor p cal params)) = None)
       = (localDate (run cfg p cal ops (constructor p cal params)) = None)
   \<and> (case setDate p cal date s of
         (ok, s') \<Rightarrow>
           if ok then unixDate s' \<noteq> None \<and> localDate s' \<noteq> None \<and> picked_consistent p cal s'
           else unixDate s' = unixDate s \<and> localDate s' = localDate s)
   \<and> unixDate (clearDate cal s) = None \<and> localDate (clearDate cal s) = None"
proof -
  have a: "picked_consistent p cal (constructor p cal params)"
    by (rule constructor_consistent)
  have b: "picked_consistent p cal (run cfg p cal ops (constructor p cal params))"
    by (rule run_consistent[OF a])
  have c: "(getDate (run cfg p cal ops (constructor p cal params)) = None)
       = (localDate (run cfg p cal ops (constructor p cal params)) = None)"
    by (rule picked_consistent_getDate[OF b])
  obtain ok s' where sd: "setDate p cal date s = (ok, s')" by (cases "setDate p cal date s")
  from setDate_fields[OF sd] sd a b c show ?thesis by (simp add: clearDate_def)
qed

theorem picked_date_invariant_witness:
  "picked_consistent sample_platform sample_calendar
     (run sample_config sample_platform sample_calendar sample_ops
        (constructor sample_platform sample_calendar sample_params))
   \<and> getDate (run sample_config sample_platform sample_calendar sample_ops
        (constructor sample_platform sample_calendar sample_params)) = Some (Num 1519862400)
   \<and> fst (setDate sample_platform sample_calendar (AInt 7258118400) sample_input) = False"
proof -
  have g: "getDate (run sample_config sample_platform sample_calendar sample_ops
        (constructor sample_platform sample_calendar sample_params)) = Some (Num 1519862400)"
    by code_simp
  have f: "fst (setDate sample_platform sample_calendar (AInt 7258118400) sample_input) = False"
    by code_simp
  from picked_date_invariant[where p = sample_platform and cal = sample_calendar
      and params = sample_params and cfg = sample_config and ops = sample_ops
      and date = "AInt 7258118400" and s = sample_input] g f
  show ?thesis by simp
qed

text \<open>
  C4, as the claim states it, fails: \<open>setDate\<close> itself does not clear the field.
  The sample input shows 1 January 2018; a date of the year 2200, which the sample
  calendar does not convert, makes \<open>setDate\<close> return false and leaves the text of
  the field as it was, not the placeholder.
\<close>

theorem setDate_unconvertible_counterexample:
  "alignedDate sample_platform (AInt 7258118400) = Some (Some 7258118400000)
   \<and> convertJSDate2LocalDate sample_calendar
        (Date_getFullYear sample_platform (Some 7258118400000))
        (Date_getMonth sample_platform (Some 7258118400000))
        (Date_getDate sample_platform (Some 7258118400000)) = None
   \<and> fst (setDate sample_platform sample_calendar (AInt 7258118400) sample_input) = False
   \<and> input_value (snd (setDate sample_platform sample_calendar (AInt 7258118400) sample_input))
       = ''2018/1/1''
   \<and> input_value (snd (setDate sample_platform sample_calendar (AInt 7258118400) sample_input))
       \<noteq> getDateStringPlaceholder sample_calendar"
  by code_simp

text \<open>
  C4, amended. When the date \<open>setDate\<close> aligns its argument to cannot be converted
  (the calendar returns a falsy value), \<open>setDate\<close> returns false without throwing,
  logs one warning and changes nothing else: the picked date and the text of the
  field stay as they were. The field is cleared by the callers that test the
  result: \<open>if (!this.setDate(date)) this.clearDate()\<close> of the constructor and of
  \<open>closeCalendar\<close> leaves the placeholder and no picked date.
\<close>

theorem setDate_unconvertible:
  assumes "alignedDate p date = Some nd"
    and "convertJSDate2LocalDate cal (Date_getFullYear p nd) (Date_getMonth p nd)
           (Date_getDate p nd) = None"
  shows "setDate p cal date s = (False, s\<lparr>warnings := warnings s @ [date]\<rparr>)
       \<and> setDateOrClear p cal date s = clearDate cal (s\<lparr>warnings := warnings s @ [date]\<rparr>)
       \<and> input_value (constructor p cal (params\<lparr>cp_date := date\<rparr>)) = getDateStringPlaceholder cal
       \<and> getDate (constructor p cal (params\<lparr>cp_date := date\<rparr>)) = None
       \<and> localDate (constructor p cal (params\<lparr>cp_date := date\<rparr>)) = None"
proof -
  have a: "setDate p cal date s = (False, s\<lparr>warnings := warnings s @ [date]\<rparr>)" for s
    using assms by (cases date) (auto simp: setDate_def alignedDate_def Let_def)
  have b: "setDateOrClear p cal date s = clearDate cal (s\<lparr>warnings := warnings s @ [date]\<rparr>)" for s
    by (simp add: setDateOrClear_def a)
  show ?thesis
    by (simp add: a b constructor_def Let_def clearDate_def subscribe_def getDate_def
        split: option.splits)
qed

theorem setDate_unconvertible_witness:
  "alignedDate sample_platform (AInt 7258118400) = Some (Some 7258118400000)
   \<and> convertJSDate2LocalDate sample_calendar
        (Date_getFullYear sample_platform (Some 7258118400000))
        (Date_getMonth sample_platform (Some 7258118400000))
        (Date_getDate sample_platform (Some 7258118400000)) = None
   \<and> setDate sample_platform sample_calendar (AInt 7258118400) sample_input
       = (False, sample_input\<lparr>warnings := warnings sample_input @ [AInt 7258118400]\<rparr>)
   \<and> input_value (constructor sample_platform sample_calendar
        (sample_params\<lparr>cp_date := AInt 7258118400\<rparr>)) = ''yyyy/mm/dd''"
proof -
  have h1: "alignedDate sample_platform (AInt 7258118400) = Some (Some 7258118400000)"
    by code_simp
  have h2: "convertJSDate2LocalDate sample_calendar
        (Date_getFullYear sample_platform (Some 7258118400000))
        (Date_getMonth sample_platform (Some 7258118400000))
        (Date_getDate sample_platform (Some 7258118400000)) = None"
    by code_simp
  have p: "getDateStringPlaceholder sample_calendar = ''yyyy/mm/dd''"
    by (simp add: sample_calendar_def)
  from setDate_unconvertible[OF h1 h2, where s = sample_input and params = sample_params] h1 h2 p
  show ?thesis by simp
qed

subsection \<open>The cache of month grids\<close>

lemma fillStart_eq:
  "k \<le> length ps \<Longrightarrow>
     fillStart ps (int k - 1) (h, dates, n)
       = (fold markGrayOut (rev (take k ps)) h, map Some (take k ps) @ dates, n - int k)"
proof (induction k arbitrary: h dates n)
  case 0
  show ?case by (subst fillStart.simps) (simp add: js_comma_def)
next
  case (Suc k)
  then have k: "k < length ps" by simp
  have t: "take (Suc k) ps = take k ps @ [ps ! k]"
    using k by (simp add: take_Suc_conv_app_nth)
  have "fillStart ps (int (Suc k) - 1) (h, dates, n)
      = fillStart ps (int k - 1) (markGrayOut (ps ! k) h, Some (ps ! k) # dates, n - 1)"
    by (subst fillStart.simps) (simp add: js_comma_def)
  also have "\<dots> = (fold markGrayOut (rev (take k ps)) (markGrayOut (ps ! k) h),
      map Some (take k ps) @ Some (ps ! k) # dates, n - 1 - int k)"
    using Suc.IH[of "markGrayOut (ps ! k) h" "Some (ps ! k) # dates" "n - 1"] k by simp
  finally show ?case by (simp add: t)
qed

lemma fillStart_all:
  "fillStart ps (int (length ps) - 1) (h, dates, n)
     = (fold markGrayOut (rev ps) h, map Some ps @ dates, n - int (length ps))"
  using fillStart_eq[of "length ps" ps h dates n] by simp

lemma fillTail_eq:
  "i \<le> length ns \<Longrightarrow>
     fillTail ns (int i) (h, dates, n)
       = (fold markGrayOut (drop i ns) h, dates @ map Some (drop i ns),
          n - int (length ns - i))"
proof (induction "length ns - i" arbitrary: i h dates n)
  case 0
  then have "i = length ns" by simp
  then show ?case by (subst fillTail.simps) (simp add: js_comma_def)
next
  case (Suc k)
  then have i: "i < length ns" and k: "k = length ns - Suc i" by simp_all
  have d: "drop i ns = ns ! i # drop (Suc i) ns"
    using i by (simp add: Cons_nth_drop_Suc)
  have "fillTail ns (int i) (h, dates, n)
      = fillTail ns (int (Suc i)) (markGrayOut (ns ! i) h, dates @ [Some (ns ! i)], n - 1)"
    using i by (subst fillTail.simps) (simp add: js_comma_def add.commute)
  also have "\<dots> = (fold markGrayOut (drop (Suc i) ns) (markGrayOut (ns ! i) h),
      (dates @ [Some (ns ! i)]) @ map Some (drop (Suc i) ns),
      n - 1 - int (length ns - Suc i))"
    using Suc.hyps(1)[OF k, of "markGrayOut (ns ! i) h" "dates @ [Some (ns ! i)]" "n - 1"] i
    by simp
  finally show ?case using i by (simp add: d of_nat_diff)
qed

lemma fillTail_all:
  "fillTail ns 0 (h, dates, n)
     = (fold markGrayOut ns h, dates @ map Some ns, n - int (length ns))"
  using fillTail_eq[of 0 ns h dates n] by simp

lemma padStart_eq: "padStart dates n = replicate (nat n) None @ dates"
proof (induction dates n rule: padStart.induct)
  case (1 dates n)
  show ?case
  proof (cases "n > 0")
    case True
    then obtain k where k: "nat n = Suc k" "nat (n - 1) = k"
      by (metis Suc_diff_1 nat_diff_distrib' nat_one_as_int zero_less_nat_eq zero_le_one
          order_less_imp_le nat_1)
    show ?thesis using 1[OF True] True k
      by (subst padStart.simps) (simp add: replicate_append_same)
  next
    case False
    then show ?thesis by (subst padStart.simps) simp
  qed
qed

lemma padTail_eq: "padTail dates n = dates @ replicate (nat n) None"
proof (induction dates n rule: padTail.induct)
  case (1 dates n)
  show ?case
  proof (cases "n > 0")
    case True
    then obtain k where k: "nat n = Suc k" "nat (n - 1) = k"
      by (metis Suc_diff_1 nat_diff_distrib' nat_one_as_int zero_less_nat_eq zero_le_one
          order_less_imp_le nat_1)
    show ?thesis using 1[OF True] True k
      by (subst padTail.simps) (simp add: replicate_append_same)
  next
    case False
    then show ?thesis by (subst padTail.simps) simp
  qed
qed

lemma length_marks [simp]: "length (fold markGrayOut as h) = length h"
  by (induction as arbitrary: h) (simp_all add: markGrayOut_def)

lemma take_marks: "\<forall>a \<in> set as. n \<le> a \<Longrightarrow> take n (fold markGrayOut as h) = take n h"
  by (induction as arbitrary: h) (simp_all add: markGrayOut_def)

lemma length_tagAll [simp]: "length (tagAll p dp ds h) = length h"
  by (induction p dp ds h rule: tagAll.induct) simp_all

lemma take_tagAll:
  "\<forall>a. Some a \<in> set ds \<longrightarrow> n \<le> a \<Longrightarrow> take n (tagAll p dp ds h) = take n h"
  by (induction p dp ds h rule: tagAll.induct) simp_all

lemma stable_refl [simp]: "stable s s"
  by (simp add: stable_def heap_extends_def cache_extends_def)

lemma heap_extends_trans:
  assumes "heap_extends s s'" "heap_extends s' s''"
  shows "heap_extends s s''"
proof -
  from assms have l: "length (heap s) \<le> length (heap s')" "length (heap s') \<le> length (heap s'')"
    and t1: "take (length (heap s)) (heap s') = heap s"
    and t2: "take (length (heap s')) (heap s'') = heap s'"
    by (simp_all add: heap_extends_def)
  have "take (length (heap s)) (heap s'') = take (length (heap s)) (take (length (heap s')) (heap s''))"
    using l by (simp add: min_def)
  also have "\<dots> = heap s" using t1 t2 by simp
  finally show ?thesis using l by (simp add: heap_extends_def)
qed

lemma stable_trans: "stable s s' \<Longrightarrow> stable s' s'' \<Longrightarrow> stable s s''"
  unfolding stable_def using heap_extends_trans by (auto simp: cache_extends_def)

lemma stableI_same:
  "heap s' = heap s \<Longrightarrow> datesCache s' = datesCache s \<Longrightarrow> stable s s'"
  by (simp add: stable_def heap_extends_def cache_extends_def cache_wf_def)

lemma alloc_props:
  "alloc ds s = (as, s') \<Longrightarrow>
     heap s' = heap s @ ds \<and> as = [length (heap s) ..< length (heap s) + length ds]
     \<and> datesCache s' = datesCache s \<and> getDatesCalls s' = getDatesCalls s"
  by (auto simp: alloc_def)

lemma call_getDates_props:
  assumes "call_getDates cal y m s = (v, s')"
  shows "\<exists>ext. heap s' = heap s @ ext" 
    and "datesCache s' = datesCache s"
    and "\<forall>as. v = VArr as \<longrightarrow> (\<forall>a \<in> set as. length (heap s) \<le> a \<and> a < length (heap s'))"
    and "read_back (heap s') v = getDates cal (getDatesCalls s) y m"
  using assms
  by (auto simp: call_getDates_def alloc_def Let_def read_back_def nth_append
      intro!: nth_equalityI split: dates_result.splits)

lemma getDatesWithCache_heap:
  assumes "getDatesWithCache cal y m s = (v, s')"
  shows "\<exists>ext. heap s' = heap s @ ext"
    and "\<forall>as. v = VArr as \<longrightarrow> (\<forall>a \<in> set as. length (heap s) \<le> a \<and> a < length (heap s'))"
proof -
  show "\<exists>ext. heap s' = heap s @ ext"
  proof (cases "cache_lookup s y m")
    case VUndefined
    obtain v1 s1 where c: "call_getDates cal y m s = (v1, s1)" by (cases "call_getDates cal y m s")
    from call_getDates_props(1)[OF c] obtain e1 where e1: "heap s1 = heap s @ e1" by blast
    show ?thesis using assms VUndefined c e1
      by (cases v1) (auto simp: getDatesWithCache_def alloc_def Let_def)
  next
    case VNull
    then show ?thesis using assms by (auto simp: getDatesWithCache_def)
  next
    case (VArr as)
    then show ?thesis using assms by (auto simp: getDatesWithCache_def alloc_def Let_def)
  qed
  show "\<forall>as. v = VArr as \<longrightarrow> (\<forall>a \<in> set as. length (heap s) \<le> a \<and> a < length (heap s'))"
  proof (cases "cache_lookup s y m")
    case VUndefined
    obtain v1 s1 where c: "call_getDates cal y m s = (v1, s1)" by (cases "call_getDates cal y m s")
    from call_getDates_props(1)[OF c] obtain e1 where e1: "heap s1 = heap s @ e1" by blast
    show ?thesis using assms VUndefined c e1
      by (cases v1) (auto simp: getDatesWithCache_def alloc_def Let_def)
  next
    case VNull
    then show ?thesis using assms by (auto simp: getDatesWithCache_def)
  next
    case (VArr as)
    then show ?thesis using assms by (auto simp: getDatesWithCache_def alloc_def Let_def)
  qed
qed

lemma getDatesWithCache_cache:
  assumes "getDatesWithCache cal y m s = (v, s')"
  shows "cache_extends s s'"
proof (cases "cache_lookup s y m")
  case VUndefined
  obtain v1 s1 where c: "call_getDates cal y m s = (v1, s1)" by (cases "call_getDates cal y m s")
  have u: "datesCache s (y, m) = None \<or> datesCache s (y, m) = Some VUndefined"
    using VUndefined by (auto simp: cache_lookup_def split: option.splits)
  show ?thesis using assms VUndefined c call_getDates_props(2)[OF c] u
    by (cases v1) (auto simp: getDatesWithCache_def alloc_def Let_def cache_extends_def)
next
  case VNull
  then show ?thesis using assms by (auto simp: getDatesWithCache_def cache_extends_def)
next
  case (VArr as)
  then show ?thesis using assms
    by (auto simp: getDatesWithCache_def alloc_def Let_def cache_extends_def)
qed

lemma getDatesWithCache_miss:
  assumes "cache_lookup s y m = VUndefined" and "call_getDates cal y m s = (v1, s1)"
  shows "getDatesWithCache cal y m s =
     (case v1 of
        VArr as \<Rightarrow>
          (VArr [length (heap s1) ..< length (heap s1) + length as],
           s1\<lparr>datesCache := (datesCache s1)((y, m) \<mapsto> v1),
              heap := heap s1 @ map (\<lambda>a. heap s1 ! a) as\<rparr>)
      | _ \<Rightarrow> (v1, s1\<lparr>datesCache := (datesCache s1)((y, m) \<mapsto> v1)\<rparr>))"
  using assms by (cases v1) (simp_all add: getDatesWithCache_def alloc_def Let_def)

lemma getDatesWithCache_hit:
  assumes "cache_lookup s y m = v0" and "v0 \<noteq> VUndefined"
  shows "getDatesWithCache cal y m s =
     (case v0 of
        VArr as \<Rightarrow>
          (VArr [length (heap s) ..< length (heap s) + length as],
           s\<lparr>heap := heap s @ map (\<lambda>a. heap s ! a) as\<rparr>)
      | _ \<Rightarrow> (v0, s))"
  using assms by (cases v0) (simp_all add: getDatesWithCache_def alloc_def Let_def)

lemma cache_wf_mono:
  assumes "cache_wf s" and "length (heap s) \<le> length (heap s')"
    and "\<And>k as. datesCache s' k = Some (VArr as) \<Longrightarrow>
           datesCache s k = Some (VArr as) \<or> (\<forall>a \<in> set as. a < length (heap s'))"
  shows "cache_wf s'"
  unfolding cache_wf_def
proof (intro allI impI ballI)
  fix k as a
  assume e: "datesCache s' k = Some (VArr as)" and a: "a \<in> set as"
  from assms(3)[OF e] show "a < length (heap s')"
  proof
    assume "datesCache s k = Some (VArr as)"
    with assms(1) a have "a < length (heap s)" unfolding cache_wf_def by blast
    with assms(2) show ?thesis by simp
  next
    assume "\<forall>a \<in> set as. a < length (heap s')"
    with a show ?thesis by simp
  qed
qed

lemma getDatesWithCache_wf:
  assumes g: "getDatesWithCache cal y m s = (v, s')" and wf: "cache_wf s"
  shows "cache_wf s'"
proof (cases "cache_lookup s y m = VUndefined")
  case True
  obtain v1 s1 where c: "call_getDates cal y m s = (v1, s1)" by (cases "call_getDates cal y m s")
  from call_getDates_props(1)[OF c] obtain e1 where e1: "heap s1 = heap s @ e1" by blast
  note p = call_getDates_props(2,3)[OF c]
  note u = getDatesWithCache_miss[OF True c]
  show ?thesis
  proof (rule cache_wf_mono[OF wf])
    show "length (heap s) \<le> length (heap s')"
      using g u e1 by (cases v1) auto
    fix k as
    assume e: "datesCache s' k = Some (VArr as)"
    show "datesCache s k = Some (VArr as) \<or> (\<forall>a \<in> set as. a < length (heap s'))"
    proof (cases "k = (y, m)")
      case True
      then have "v1 = VArr as" using g u e by (cases v1) auto
      then show ?thesis using p(2) g u by auto
    next
      case False
      then show ?thesis using g u e p(1) by (cases v1) auto
    qed
  qed
next
  case False
  note u = getDatesWithCache_hit[OF refl False, of cal]
  show ?thesis
  proof (rule cache_wf_mono[OF wf])
    show "length (heap s) \<le> length (heap s')"
      using g u by (cases "cache_lookup s y m") auto
    fix k as
    assume e: "datesCache s' k = Some (VArr as)"
    show "datesCache s k = Some (VArr as) \<or> (\<forall>a \<in> set as. a < length (heap s'))"
      using g u e by (cases "cache_lookup s y m") auto
  qed
qed

lemma heap_extends_append: "heap s' = heap s @ ext \<Longrightarrow> heap_extends s s'"
  by (simp add: heap_extends_def)

lemma getDatesWithCache_stable:
  "getDatesWithCache cal y m s = (v, s') \<Longrightarrow> stable s s'"
  using getDatesWithCache_heap(1)[of cal y m s v s'] getDatesWithCache_cache[of cal y m s v s']
    getDatesWithCache_wf[of cal y m s v s'] heap_extends_append[of s' s]
  unfolding stable_def by blast

lemma stable_heap_update:
  assumes "stable s s'" and "length h = length (heap s')"
    and "take (length (heap s)) h = take (length (heap s)) (heap s')"
  shows "stable s (s'\<lparr>heap := h\<rparr>)"
  using assms by (auto simp: stable_def heap_extends_def cache_extends_def cache_wf_def)

lemma stable_length: "stable s s' \<Longrightarrow> length (heap s) \<le> length (heap s')"
  by (simp add: stable_def heap_extends_def)

lemma set_padStart: "Some a \<in> set (padStart ds n) \<longleftrightarrow> Some a \<in> set ds"
  by (auto simp: padStart_eq)

lemma set_padTail: "Some a \<in> set (padTail ds n) \<longleftrightarrow> Some a \<in> set ds"
  by (auto simp: padTail_eq)

lemma displayStart_stable:
  assumes ds: "displayStart cal y m as s1 = (r, s2)"
    and fresh: "\<forall>a \<in> set as. n0 \<le> a \<and> a < length (heap s1)"
    and n0: "n0 \<le> length (heap s1)"
  shows "stable s1 s2"
    and "\<forall>dates. r = Inr dates \<longrightarrow> (\<forall>a. Some a \<in> set dates \<longrightarrow> n0 \<le> a \<and> a < length (heap s2))"
proof -
  let ?idx = "case as of [] \<Rightarrow> findIndex (\<lambda>d. False) (getDays cal)
              | a # _ \<Rightarrow> findIndex (\<lambda>d. dvalue d = ld_day (heap s1 ! a)) (getDays cal)"
  have base: "\<forall>a. Some a \<in> set (map Some as) \<longrightarrow> n0 \<le> a \<and> a < length (heap s1)"
    using fresh by auto
  have "stable s1 s2 \<and>
    (\<forall>dates. r = Inr dates \<longrightarrow> (\<forall>a. Some a \<in> set dates \<longrightarrow> n0 \<le> a \<and> a < length (heap s2)))"
  proof (cases "getDays cal \<noteq> [] \<and> as = []")
    case True
    then show ?thesis using ds by (auto simp: displayStart_def)
  next
    case False
    show ?thesis
    proof (cases "?idx > 0")
      case idx: False
      then have "r = Inr (padStart (map Some as) ?idx) \<and> s2 = s1"
        using ds False by (auto simp: displayStart_def Let_def)
      then show ?thesis using base by (auto simp: set_padStart)
    next
      case idx: True
      show ?thesis
      proof (cases "calcPrevLocalMonth y m (getMonths cal y)")
        case (Inl e)
        then show ?thesis using ds False idx by (auto simp: displayStart_def Let_def)
      next
        case (Inr prev)
        obtain pv s' where g: "getDatesWithCache cal (ym_year prev) (ym_month prev) s1 = (pv, s')"
          by (cases "getDatesWithCache cal (ym_year prev) (ym_month prev) s1")
        note st = getDatesWithCache_stable[OF g]
        note fr = getDatesWithCache_heap(2)[OF g]
        note ln = stable_length[OF st]
        show ?thesis
        proof (cases pv)
          case (VArr ps)
          have r: "r = Inr (padStart (map Some ps @ map Some as) (?idx - int (length ps)))"
            and s2: "s2 = s'\<lparr>heap := fold markGrayOut (rev ps) (heap s')\<rparr>"
            using ds False idx Inr g VArr
            by (auto simp: displayStart_def Let_def fillStart_all)
          have ps: "\<forall>a \<in> set ps. length (heap s1) \<le> a \<and> a < length (heap s')"
            using fr VArr by simp
          have tk: "take (length (heap s1)) (fold markGrayOut (rev ps) (heap s'))
              = take (length (heap s1)) (heap s')"
            by (rule take_marks) (use ps in auto)
          have "stable s1 s2" unfolding s2
            by (rule stable_heap_update[OF st]) (simp_all add: tk)
          moreover have "\<forall>a. Some a \<in> set (map Some ps @ map Some as)
              \<longrightarrow> n0 \<le> a \<and> a < length (heap s2)"
            using ps fresh n0 ln s2 by fastforce
          ultimately show ?thesis using r by (auto simp: set_padStart)
        next
          case VUndefined
          then have "r = Inr (padStart (map Some as) ?idx) \<and> s2 = s'"
            using ds False idx Inr g by (auto simp: displayStart_def Let_def)
          then show ?thesis using st base ln by (fastforce simp: set_padStart)
        next
          case VNull
          then have "r = Inr (padStart (map Some as) ?idx) \<and> s2 = s'"
            using ds False idx Inr g by (auto simp: displayStart_def Let_def)
          then show ?thesis using st base ln by (fastforce simp: set_padStart)
        qed
      qed
    qed
  qed
  then show "stable s1 s2"
    and "\<forall>dates. r = Inr dates \<longrightarrow> (\<forall>a. Some a \<in> set dates \<longrightarrow> n0 \<le> a \<and> a < length (heap s2))"
    by blast+
qed

lemma displayTail_stable:
  assumes dt: "displayTail cfg cal y m dates s2 = (r, s3)"
    and fresh: "\<forall>a. Some a \<in> set dates \<longrightarrow> n0 \<le> a \<and> a < length (heap s2)"
    and n0: "n0 \<le> length (heap s2)"
  shows "stable s2 s3"
    and "\<forall>ds. r = Inr ds \<longrightarrow> (\<forall>a. Some a \<in> set ds \<longrightarrow> n0 \<le> a \<and> a < length (heap s3))"
proof -
  let ?n = "MAX_COUNT_DATES_IN_DATE_PICKER cfg - int (length dates)"
  have "stable s2 s3 \<and>
    (\<forall>ds. r = Inr ds \<longrightarrow> (\<forall>a. Some a \<in> set ds \<longrightarrow> n0 \<le> a \<and> a < length (heap s3)))"
  proof (cases "?n > 0")
    case False
    then have "r = Inr (padTail dates ?n) \<and> s3 = s2"
      using dt by (auto simp: displayTail_def Let_def)
    then show ?thesis using fresh by (auto simp: set_padTail)
  next
    case True
    show ?thesis
    proof (cases "calcNextLocalMonth y m (getMonths cal y)")
      case (Inl e)
      then show ?thesis using dt True by (auto simp: displayTail_def Let_def)
    next
      case (Inr nxt)
      obtain nv s' where g: "getDatesWithCache cal (ym_year nxt) (ym_month nxt) s2 = (nv, s')"
        by (cases "getDatesWithCache cal (ym_year nxt) (ym_month nxt) s2")
      note st = getDatesWithCache_stable[OF g]
      note fr = getDatesWithCache_heap(2)[OF g]
      note ln = stable_length[OF st]
      show ?thesis
      proof (cases nv)
        case (VArr ns)
        have r: "r = Inr (padTail (dates @ map Some ns) (?n - int (length ns)))"
          and s3: "s3 = s'\<lparr>heap := fold markGrayOut ns (heap s')\<rparr>"
          using dt True Inr g VArr
          by (auto simp: displayTail_def Let_def fillTail_all)
        have ns: "\<forall>a \<in> set ns. length (heap s2) \<le> a \<and> a < length (heap s')"
          using fr VArr by simp
        have tk: "take (length (heap s2)) (fold markGrayOut ns (heap s'))
            = take (length (heap s2)) (heap s')"
          by (rule take_marks) (use ns in auto)
        have "stable s2 s3" unfolding s3
          by (rule stable_heap_update[OF st]) (simp_all add: tk)
        moreover have "\<forall>a. Some a \<in> set (dates @ map Some ns)
            \<longrightarrow> n0 \<le> a \<and> a < length (heap s3)"
          using ns fresh n0 ln s3 by fastforce
        ultimately show ?thesis using r by (auto simp: set_padTail)
      next
        case VUndefined
        then have "r = Inr (padTail dates ?n) \<and> s3 = s'"
          using dt True Inr g by (auto simp: displayTail_def Let_def)
        then show ?thesis using st fresh ln by (fastforce simp: set_padTail)
      next
        case VNull
        then have "r = Inr (padTail dates ?n) \<and> s3 = s'"
          using dt True Inr g by (auto simp: displayTail_def Let_def)
        then show ?thesis using st fresh ln by (fastforce simp: set_padTail)
      qed
    qed
  qed
  then show "stable s2 s3"
    and "\<forall>ds. r = Inr ds \<longrightarrow> (\<forall>a. Some a \<in> set ds \<longrightarrow> n0 \<le> a \<and> a < length (heap s3))"
    by blast+
qed

lemma getLocalDatesToDisplay_stable:
  "stable s (snd (getLocalDatesToDisplay cfg p cal y m dp s))"
proof -
  obtain d0 s1 where g: "getDatesWithCache cal y m s = (d0, s1)"
    by (cases "getDatesWithCache cal y m s")
  note st1 = getDatesWithCache_stable[OF g]
  note fr1 = getDatesWithCache_heap(2)[OF g]
  note ln1 = stable_length[OF st1]
  show ?thesis
  proof (cases d0)
    case (VArr as)
    obtain r2 s2 where ds: "displayStart cal y m as s1 = (r2, s2)"
      by (cases "displayStart cal y m as s1")
    have fr: "\<forall>a \<in> set as. length (heap s) \<le> a \<and> a < length (heap s1)" using fr1 VArr by simp
    note st2 = displayStart_stable[OF ds fr ln1]
    have st12: "stable s s2" using stable_trans[OF st1 st2(1)] .
    show ?thesis
    proof (cases r2)
      case (Inl e)
      then show ?thesis using g VArr ds st12 by (simp add: getLocalDatesToDisplay_def)
    next
      case (Inr dates1)
      obtain r3 s3 where dt: "displayTail cfg cal y m dates1 s2 = (r3, s3)"
        by (cases "displayTail cfg cal y m dates1 s2")
      have fr2: "\<forall>a. Some a \<in> set dates1 \<longrightarrow> length (heap s) \<le> a \<and> a < length (heap s2)"
        using st2(2) Inr by simp
      note st3 = displayTail_stable[OF dt fr2 stable_length[OF st12]]
      have st13: "stable s s3" using stable_trans[OF st12 st3(1)] .
      show ?thesis
      proof (cases r3)
        case (Inl e)
        then show ?thesis using g VArr ds \<open>r2 = Inr dates1\<close> dt st13
          by (simp add: getLocalDatesToDisplay_def)
      next
        case (Inr dates2)
        have fr3: "\<forall>a. Some a \<in> set dates2 \<longrightarrow> length (heap s) \<le> a" using st3(2) Inr by simp
        have "stable s (s3\<lparr>heap := tagAll p dp dates2 (heap s3)\<rparr>)"
          by (rule stable_heap_update[OF st13]) (simp_all add: take_tagAll[OF fr3])
        then show ?thesis using g VArr ds \<open>r2 = Inr dates1\<close> dt Inr
          by (simp add: getLocalDatesToDisplay_def)
      qed
    qed
  qed (use g st1 in \<open>simp_all add: getLocalDatesToDisplay_def\<close>)
qed

lemma getDatePickerParams_stable:
  "stable s (snd (getDatePickerParams cfg p cal y m dp s))"
  using getLocalDatesToDisplay_stable[of s cfg p cal y m dp]
  by (simp add: getDatePickerParams_def Let_def split_beta split: sum.splits)

lemma cache_lookup_VArr:
  "cache_lookup s y m = VArr as \<Longrightarrow> datesCache s (y, m) = Some (VArr as)"
  by (auto simp: cache_lookup_def split: option.splits)

lemma cache_lookup_defined:
  "cache_lookup s y m = v \<Longrightarrow> v \<noteq> VUndefined \<Longrightarrow> datesCache s (y, m) = Some v"
  by (auto simp: cache_lookup_def split: option.splits)

lemma map_nth_fresh: "map ((!) (h @ xs)) [length h ..< length h + length xs] = xs"
  by (rule nth_equalityI) (simp_all add: nth_append)

lemma map_nth_old: "\<forall>a \<in> set as. a < length h \<Longrightarrow> map ((!) (h @ xs)) as = map ((!) h) as"
  by (simp add: nth_append)

lemma hit_read_back:
  assumes wf: "cache_wf s" and l: "cache_lookup s y m = v" and v: "v \<noteq> VUndefined"
    and g: "getDatesWithCache cal y m s = (r, s')"
  shows "read_back (heap s') r = read_back (heap s) v"
    and "getDatesCalls s' = getDatesCalls s"
    and "datesCache s' = datesCache s"
proof -
  note u = getDatesWithCache_hit[OF l v, of cal]
  have "read_back (heap s') r = read_back (heap s) v \<and> getDatesCalls s' = getDatesCalls s
      \<and> datesCache s' = datesCache s"
  proof (cases v)
    case (VArr as)
    have "\<forall>a \<in> set as. a < length (heap s)"
      using wf cache_lookup_VArr[of s y m as] l VArr unfolding cache_wf_def by blast
    then show ?thesis using g u VArr
      by (auto simp: read_back_def map_nth_fresh[of "heap s" "map ((!) (heap s)) as", simplified])
  qed (use g u v in \<open>auto simp: read_back_def\<close>)
  then show "read_back (heap s') r = read_back (heap s) v"
    and "getDatesCalls s' = getDatesCalls s" and "datesCache s' = datesCache s"
    by blast+
qed

lemma miss_read_back:
  assumes l: "cache_lookup s y m = VUndefined"
    and g: "getDatesWithCache cal y m s = (r, s')"
  shows "read_back (heap s') r = getDates cal (getDatesCalls s) y m"
    and "read_back (heap s') (cache_lookup s' y m) = getDates cal (getDatesCalls s) y m"
proof -
  obtain v1 s1 where c: "call_getDates cal y m s = (v1, s1)" by (cases "call_getDates cal y m s")
  note u = getDatesWithCache_miss[OF l c]
  note rb = call_getDates_props(4)[OF c]
  note fr = call_getDates_props(3)[OF c]
  have "read_back (heap s') r = getDates cal (getDatesCalls s) y m
    \<and> read_back (heap s') (cache_lookup s' y m) = getDates cal (getDatesCalls s) y m"
  proof (cases v1)
    case (VArr as)
    have old: "\<forall>a \<in> set as. a < length (heap s1)" using fr VArr by simp
    have r: "r = VArr [length (heap s1) ..< length (heap s1) + length as]"
      and h: "heap s' = heap s1 @ map ((!) (heap s1)) as"
      and cl: "cache_lookup s' y m = VArr as"
      using g u VArr by (auto simp: cache_lookup_def)
    have 1: "read_back (heap s') r = DArray (map ((!) (heap s1)) as)"
      unfolding r h read_back_def
      using map_nth_fresh[of "heap s1" "map ((!) (heap s1)) as"] by simp
    have 2: "read_back (heap s') (VArr as) = DArray (map ((!) (heap s1)) as)"
      unfolding h read_back_def using map_nth_old[OF old] by simp
    have 3: "DArray (map ((!) (heap s1)) as) = getDates cal (getDatesCalls s) y m"
      using rb VArr by (simp add: read_back_def)
    show ?thesis unfolding cl 1 2 using 3 by simp
  qed (use g u rb in \<open>auto simp: read_back_def cache_lookup_def\<close>)
  then show "read_back (heap s') r = getDates cal (getDatesCalls s) y m"
    and "read_back (heap s') (cache_lookup s' y m) = getDates cal (getDatesCalls s) y m"
    by blast+
qed

lemma read_back_undefined: "read_back h v = DUndefined \<longleftrightarrow> v = VUndefined"
  by (cases v) (simp_all add: read_back_def)

lemma after_call:
  assumes wf: "cache_wf s" and g: "getDatesWithCache cal y m s = (r, s')"
    and r: "r \<noteq> VUndefined"
  shows "cache_lookup s' y m \<noteq> VUndefined"
    and "read_back (heap s') (cache_lookup s' y m) = read_back (heap s') r"
proof -
  have "cache_lookup s' y m \<noteq> VUndefined
      \<and> read_back (heap s') (cache_lookup s' y m) = read_back (heap s') r"
  proof (cases "cache_lookup s y m = VUndefined")
    case True
    from miss_read_back[OF True g] r show ?thesis
      by (metis read_back_undefined)
  next
    case False
    note h = hit_read_back[OF wf refl False g]
    note u = getDatesWithCache_hit[OF refl False, of cal]
    have same: "cache_lookup s' y m = cache_lookup s y m"
      using h(3) by (simp add: cache_lookup_def)
    have "read_back (heap s') (cache_lookup s y m) = read_back (heap s) (cache_lookup s y m)"
    proof (cases "cache_lookup s y m")
      case (VArr as)
      have old: "\<forall>a \<in> set as. a < length (heap s)"
        using wf cache_lookup_VArr[OF VArr] unfolding cache_wf_def by blast
      have "heap s' = heap s @ map ((!) (heap s)) as" using g u VArr by auto
      then show ?thesis using VArr map_nth_old[OF old] by (simp add: read_back_def)
    qed (simp_all add: read_back_def)
    then show ?thesis using h(1) same False by simp
  qed
  then show "cache_lookup s' y m \<noteq> VUndefined"
    and "read_back (heap s') (cache_lookup s' y m) = read_back (heap s') r"
    by blast+
qed

lemma stable_entry:
  assumes st: "stable s s'" and wf: "cache_wf s"
    and v: "cache_lookup s y m \<noteq> VUndefined"
  shows "cache_lookup s' y m = cache_lookup s y m"
    and "read_back (heap s') (cache_lookup s y m) = read_back (heap s) (cache_lookup s y m)"
    and "cache_wf s'"
proof -
  from st have he: "heap_extends s s'" and ce: "cache_extends s s'" and wf': "cache_wf s'"
    using wf by (simp_all add: stable_def)
  have e: "datesCache s (y, m) = Some (cache_lookup s y m)"
    using cache_lookup_defined[OF refl v] .
  with ce v have e': "datesCache s' (y, m) = Some (cache_lookup s y m)"
    unfolding cache_extends_def by blast
  show "cache_lookup s' y m = cache_lookup s y m" using e' by (simp add: cache_lookup_def)
  show "cache_wf s'" by (rule wf')
  show "read_back (heap s') (cache_lookup s y m) = read_back (heap s) (cache_lookup s y m)"
  proof (cases "cache_lookup s y m")
    case (VArr as)
    have old: "\<forall>a \<in> set as. a < length (heap s)"
      using wf e VArr unfolding cache_wf_def by auto
    have "heap s' ! a = heap s ! a" if "a \<in> set as" for a
    proof -
      from old that have a: "a < length (heap s)" by simp
      from he have "take (length (heap s)) (heap s') = heap s" by (simp add: heap_extends_def)
      then have "heap s ! a = take (length (heap s)) (heap s') ! a" by simp
      also have "\<dots> = heap s' ! a" using a by simp
      finally show ?thesis by simp
    qed
    then show ?thesis using VArr by (simp add: read_back_def)
  qed (simp_all add: read_back_def)
qed

lemma setDate_stable: "stable s (snd (setDate p cal date s))"
  by (rule stableI_same)
    (auto simp: setDate_def Let_def split: option.splits date_arg.splits)

lemma clearDate_stable: "stable s (clearDate cal s)"
  by (rule stableI_same) (simp_all add: clearDate_def)

lemma setDateOrClear_stable: "stable s (setDateOrClear p cal date s)"
  by (rule stableI_same)
    (auto simp: setDateOrClear_def clearDate_def setDate_def Let_def
      split: option.splits date_arg.splits)

lemma render_request_stable: "stable s (render_request r s)"
  by (rule stableI_same) (simp_all add: render_request_def)

lemma notify_stable: "stable s (notify s)"
  by (rule stableI_same) (simp_all add: notify_def)

lemma openCalendar_stable: "stable s (openCalendar a b s)"
  by (simp add: openCalendar_def render_request_stable)

lemma subscribe_stable: "stable s (subscribe e h s)"
  by (rule stableI_same) (simp_all add: subscribe_def split: option.splits)

lemma unsubscribe_stable: "stable s (unsubscribe e h s)"
  by (rule stableI_same) (simp_all add: unsubscribe_def split: option.splits)

lemma closeCalendar_stable: "stable s (closeCalendar p cal c s)"
  using stable_trans[OF setDateOrClear_stable render_request_stable]
  by (simp add: closeCalendar_def)

lemma showDatePicker_stable: "stable s (snd (showDatePicker cfg p cal y m dp s))"
proof -
  obtain r s' where g: "getDatePickerParams cfg p cal y m dp s = (r, s')"
    by (cases "getDatePickerParams cfg p cal y m dp s")
  have 1: "stable s s'" using getDatePickerParams_stable[of s cfg p cal y m dp] g by simp
  show ?thesis using g 1 stable_trans[OF 1 render_request_stable]
    by (cases r) (simp_all add: showDatePicker_def)
qed

lemma showMonthPicker_stable: "stable s (snd (showMonthPicker p cal y m s))"
  by (simp add: showMonthPicker_def render_request_stable)

lemma showYearPicker_stable: "stable s (snd (showYearPicker cfg p cal y m s))"
  by (simp add: showYearPicker_def render_request_stable)

lemma flipDatePicker_stable: "stable s (snd (flipDatePicker cfg p cal y m dir s))"
proof (cases "flipDatePickerTarget cal (rtl s) y m dir")
  case (Inl e)
  then show ?thesis by (simp add: flipDatePicker_def)
next
  case (Inr t)
  obtain r s' where g: "getDatePickerParams cfg p cal (ym_year t) (ym_month t) (localDate s) s = (r, s')"
    by (cases "getDatePickerParams cfg p cal (ym_year t) (ym_month t) (localDate s) s")
  have 1: "stable s s'"
    using getDatePickerParams_stable[of s cfg p cal "ym_year t" "ym_month t" "localDate s"] g
    by simp
  show ?thesis using Inr g 1 stable_trans[OF 1 render_request_stable]
    by (cases r) (simp_all add: flipDatePicker_def)
qed

lemma flipYearPicker_stable: "stable s (snd (flipYearPicker cfg p cal y m ys dir s))"
  by (simp add: flipYearPicker_def showYearPicker_stable)

lemma args2_stable:
  "(\<And>x y. stable s (snd (f x y s))) \<Longrightarrow> stable s (snd (args2 a b f s))"
  by (simp add: args2_def split: sum.splits)

lemma args3_stable:
  "(\<And>x y z. stable s (snd (f x y z s))) \<Longrightarrow> stable s (snd (args3 a b c f s))"
  by (simp add: args3_def args2_stable split: sum.splits)

lemma onPanelButtonClick_stable:
  "stable s (snd (onPanelButtonClick cfg p cal picker target s))"
  unfolding onPanelButtonClick_def Let_def
  by (auto intro!: args2_stable args3_stable showYearPicker_stable showMonthPicker_stable
        flipDatePicker_stable flipYearPicker_stable)

lemma pickDate_stable: "stable s (snd (pickDate cfg p cal y m d s))"
proof (cases "convertLocalDate2JSDate cal y m d")
  case None
  then show ?thesis by (simp add: pickDate_def)
next
  case (Some jsDate)
  let ?d = "ADate (new_Date_ymd p (Num (js_year jsDate)) (Num (js_month jsDate)) (Num (js_date jsDate)))"
  obtain ok s1 where sd: "setDate p cal ?d s = (ok, s1)" by (cases "setDate p cal ?d s")
  have 1: "stable s s1" using setDate_stable[of s p cal ?d] sd by simp
  show ?thesis
  proof (cases "ok \<and> localDate s1 \<noteq> None")
    case False
    then show ?thesis using Some sd 1 by (auto simp: pickDate_def Let_def)
  next
    case True
    then obtain l where l: "localDate s1 = Some l" by auto
    obtain r2 s2 where sh: "showDatePicker cfg p cal (ld_year l) (ld_month l) (Some l) s1 = (r2, s2)"
      by (cases "showDatePicker cfg p cal (ld_year l) (ld_month l) (Some l) s1")
    have 2: "stable s1 s2"
      using showDatePicker_stable[of s1 cfg p cal "ld_year l" "ld_month l" "Some l"] sh by simp
    have 12: "stable s s2" using stable_trans[OF 1 2] .
    have 13: "stable s (notify s2)" using stable_trans[OF 12 notify_stable] .
    show ?thesis using Some sd True l sh 12 13
      by (cases r2) (simp_all add: pickDate_def Let_def)
  qed
qed

lemma onPick_stable: "stable s (snd (onPick cfg p cal picker target s))"
  unfolding onPick_def Let_def
  by (auto split: option.splits
      intro!: args2_stable args3_stable pickDate_stable showDatePicker_stable)

lemma openCalendarFrame_stable: "stable s (snd (openCalendarFrame cfg p cal s))"
proof -
  let ?l = "case localDate s of Some l \<Rightarrow> l | None \<Rightarrow> getNow cal"
  obtain r s' where g: "getDatePickerParams cfg p cal (ld_year ?l) (ld_month ?l) (localDate s) s = (r, s')"
    by (cases "getDatePickerParams cfg p cal (ld_year ?l) (ld_month ?l) (localDate s) s")
  have 1: "stable s s'"
    using getDatePickerParams_stable[of s cfg p cal "ld_year ?l" "ld_month ?l" "localDate s"] g
    by simp
  show ?thesis using g 1 stable_trans[OF 1 render_request_stable]
    by (cases r) (simp_all add: openCalendarFrame_def Let_def)
qed

lemma perform_stable: "stable s (perform cfg p cal x s)"
  by (cases x)
    (simp_all add: setDate_stable clearDate_stable openCalendar_stable openCalendarFrame_stable
      closeCalendar_stable subscribe_stable unsubscribe_stable onFocus_def onClickOutside_def
      onClearBtnClick_def stable_trans[OF clearDate_stable notify_stable]
      onPickerClick_def onPanelButtonClick_stable onPick_stable)

lemma run_stable: "stable s (run cfg p cal ops s)"
proof (induction ops arbitrary: s)
  case Nil
  show ?case by simp
next
  case (Cons x xs)
  show ?case using stable_trans[OF perform_stable Cons.IH] by simp
qed

lemma constructor_wf: "cache_wf (constructor p cal params)"
proof -
  have "datesCache (constructor p cal params) = Map.empty"
    by (auto simp: constructor_def Let_def subscribe_def setDateOrClear_def setDate_def
        clearDate_def split: option.splits date_arg.splits)
  then show ?thesis by (simp add: cache_wf_def)
qed

lemma stable_wf: "stable s s' \<Longrightarrow> cache_wf s \<Longrightarrow> cache_wf s'"
  by (simp add: stable_def)

text \<open>
  C9. Take any state reached from the constructor, call \<open>_getDatesWithCache\<close> for
  \<open>(year, month)\<close> and let it return a value other than \<open>undefined\<close>. If the cache
  had nothing for the key, what it returns reads as the result of the call of
  \<open>calendar.getDates\<close> made then. After any run of operations and a call of
  \<open>_getLocalDatesToDisplay\<close> for any month, with its tagging of the dates it
  displays, the cache holds the same entry for the key and the objects of the entry
  read as at the start; a further call of \<open>_getDatesWithCache\<close> for the key returns
  objects that read the same, without a call of \<open>calendar.getDates\<close> and without a
  change of the cache.
\<close>

theorem cache_entry_immutable:
  "(let s0 = run cfg p cal earlier (constructor p cal params);
        (r0, s1) = getDatesWithCache cal year month s0;
        s2 = run cfg p cal later s1;
        (rd, s3) = getLocalDatesToDisplay cfg p cal year' month' datePicked s2;
        (r4, s4) = getDatesWithCache cal year month s3
    in r0 \<noteq> VUndefined \<longrightarrow>
         (cache_lookup s0 year month = VUndefined \<longrightarrow>
            read_back (heap s1) r0 = getDates cal (getDatesCalls s0) year month)
         \<and> cache_lookup s1 year month \<noteq> VUndefined
         \<and> cache_lookup s3 year month = cache_lookup s1 year month
         \<and> read_back (heap s3) (cache_lookup s3 year month) = read_back (heap s1) r0
         \<and> read_back (heap s4) r4 = read_back (heap s1) r0
         \<and> getDatesCalls s4 = getDatesCalls s3
         \<and> datesCache s4 = datesCache s3)"
proof -
  define s0 where "s0 = run cfg p cal earlier (constructor p cal params)"
  obtain r0 s1 where g0: "getDatesWithCache cal year month s0 = (r0, s1)"
    by (cases "getDatesWithCache cal year month s0")
  define s2 where "s2 = run cfg p cal later s1"
  obtain rd s3 where gd: "getLocalDatesToDisplay cfg p cal year' month' datePicked s2 = (rd, s3)"
    by (cases "getLocalDatesToDisplay cfg p cal year' month' datePicked s2")
  obtain r4 s4 where g4: "getDatesWithCache cal year month s3 = (r4, s4)"
    by (cases "getDatesWithCache cal year month s3")
  have wf0: "cache_wf s0"
    unfolding s0_def by (rule stable_wf[OF run_stable constructor_wf])
  have wf1: "cache_wf s1" by (rule getDatesWithCache_wf[OF g0 wf0])
  have st12: "stable s1 s2" unfolding s2_def by (rule run_stable)
  have st23: "stable s2 s3"
    using getLocalDatesToDisplay_stable[of s2 cfg p cal year' month' datePicked] gd by simp
  have st13: "stable s1 s3" by (rule stable_trans[OF st12 st23])
  have main: "(cache_lookup s0 year month = VUndefined \<longrightarrow>
            read_back (heap s1) r0 = getDates cal (getDatesCalls s0) year month)
         \<and> cache_lookup s1 year month \<noteq> VUndefined
         \<and> cache_lookup s3 year month = cache_lookup s1 year month
         \<and> read_back (heap s3) (cache_lookup s3 year month) = read_back (heap s1) r0
         \<and> read_back (heap s4) r4 = read_back (heap s1) r0
         \<and> getDatesCalls s4 = getDatesCalls s3
         \<and> datesCache s4 = datesCache s3" if r0: "r0 \<noteq> VUndefined"
  proof -
    note ac = after_call[OF wf0 g0 r0]
    note se = stable_entry[OF st13 wf1 ac(1)]
    have a: "cache_lookup s0 year month = VUndefined \<longrightarrow>
            read_back (heap s1) r0 = getDates cal (getDatesCalls s0) year month"
      using miss_read_back(1)[OF _ g0] by blast
    have d: "read_back (heap s3) (cache_lookup s3 year month) = read_back (heap s1) r0"
      using se(1,2) ac(2) by simp
    have v3: "cache_lookup s3 year month \<noteq> VUndefined" using se(1) ac(1) by simp
    note h = hit_read_back[OF se(3) refl v3 g4]
    from a ac(1) se(1) d h show ?thesis by simp
  qed
  show ?thesis
    unfolding Let_def s0_def[symmetric] g0 prod.case s2_def[symmetric] gd g4
    using main by blast
qed

lemma sample_cache_first:
  "fst (getDatesWithCache sample_calendar 2018 1 sample_input) \<noteq> VUndefined"
  by code_simp

theorem cache_entry_immutable_witness:
  "(let s0 = run sample_config sample_platform sample_calendar []
               (constructor sample_platform sample_calendar sample_params);
        s1 = snd (getDatesWithCache sample_calendar 2018 1 s0);
        r0 = fst (getDatesWithCache sample_calendar 2018 1 s0);
        s2 = run sample_config sample_platform sample_calendar sample_cache_ops s1;
        s3 = snd (getLocalDatesToDisplay sample_config sample_platform sample_calendar 2018 2 None s2);
        r4 = fst (getDatesWithCache sample_calendar 2018 1 s3);
        s4 = snd (getDatesWithCache sample_calendar 2018 1 s3)
    in r0 \<noteq> VUndefined
       \<and> read_back (heap s4) r4 = read_back (heap s1) r0
       \<and> getDatesCalls s4 = getDatesCalls s3)"
proof -
  have h: "fst (getDatesWithCache sample_calendar 2018 1
      (run sample_config sample_platform sample_calendar []
         (constructor sample_platform sample_calendar sample_params))) \<noteq> VUndefined"
    using sample_cache_first by (simp add: sample_input_def)
  from cache_entry_immutable[where cfg = sample_config and p = sample_platform
      and cal = sample_calendar and earlier = "[]" and params = sample_params and year = 2018
      and month = 1 and later = sample_cache_ops and year' = 2018 and month' = 2
      and datePicked = None] h
  show ?thesis by (simp add: Let_def split_beta)
qed

subsection \<open>The grid of the date picker\<close>

lemma getDatesWithCache_fresh:
  assumes l: "cache_lookup s y m = VUndefined"
    and d: "getDates cal (getDatesCalls s) y m = DArray ds"
  shows "getDatesWithCache cal y m s =
     (VArr [length (heap s) + length ds ..< length (heap s) + length ds + length ds],
      s\<lparr>getDatesCalls := Suc (getDatesCalls s),
         heap := heap s @ ds @ ds,
         datesCache := (datesCache s)((y, m) \<mapsto> VArr [length (heap s) ..< length (heap s) + length ds])\<rparr>)"
proof -
  have c: "call_getDates cal y m s =
      (VArr [length (heap s) ..< length (heap s) + length ds],
       s\<lparr>getDatesCalls := Suc (getDatesCalls s), heap := heap s @ ds\<rparr>)"
    using d by (simp add: call_getDates_def alloc_def Let_def)
  have m: "map ((!) (heap s @ ds)) [length (heap s) ..< length (heap s) + length ds] = ds"
    by (rule map_nth_fresh)
  show ?thesis
    unfolding getDatesWithCache_miss[OF l c] by (simp add: m)
qed

lemma constructor_fresh:
  "heap (constructor p cal params) = [] \<and> datesCache (constructor p cal params) = Map.empty
   \<and> getDatesCalls (constructor p cal params) = 0"
  by (auto simp: constructor_def Let_def subscribe_def setDateOrClear_def setDate_def
      clearDate_def split: option.splits date_arg.splits)

lemma sample_feb: "sample_getDates n 2018 1 = DArray (map (\<lambda>d. sample_date 2018 1 (int d)) [1 ..< 29])"
  by (simp add: sample_getDates_def sample_in_calendar_def sample_month_length_def MakeDay_def
      days_from_civil_def Let_def)

lemma sample_jan: "sample_getDates n 2018 0 = DArray (map (\<lambda>d. sample_date 2018 0 (int d)) [1 ..< 32])"
  by (simp add: sample_getDates_def sample_in_calendar_def sample_month_length_def MakeDay_def
      days_from_civil_def Let_def)

lemma sample_feb_first_day:
  "ld_day (sample_date 2018 1 1) = 4"
  by (simp add: sample_date_def days_from_civil_def Let_def)

lemma sample_days_index: "findIndex (\<lambda>d. dvalue d = 4) sample_days = 4"
  by (simp add: sample_days_def Let_def)

lemma sample_prev_of_feb:
  "calcPrevLocalMonth 2018 1 sample_months = Inr \<lparr>ym_year = 2018, ym_month = 0\<rparr>"
  by (simp add: calcPrevLocalMonth_def sample_months_def js_nth_def Let_def)

lemma nth_marks:
  "a < length h \<Longrightarrow>
     fold markGrayOut as h ! a = (if a \<in> set as then (h ! a)\<lparr>ld_grayOut := True\<rparr> else h ! a)"
proof (induction as arbitrary: h)
  case Nil
  show ?case by simp
next
  case (Cons x xs)
  have l: "a < length (markGrayOut x h)" using Cons.prems by (simp add: markGrayOut_def)
  show ?case using Cons.IH[OF l] Cons.prems
    by (cases "a = x") (auto simp: markGrayOut_def nth_list_update)
qed

lemma length_marks_eq: "length (fold markGrayOut as h) = length h"
  by (induction as arbitrary: h) (simp_all add: markGrayOut_def)

lemma nth_tagAll:
  "a < length h \<Longrightarrow> distinct (filter (\<lambda>x. x \<noteq> None) ds) \<Longrightarrow>
     tagAll p dp ds h ! a = (if Some a \<in> set ds then tagDate p dp (h ! a) else h ! a)"
proof (induction p dp ds h rule: tagAll.induct)
  case (1 p dp h)
  show ?case by simp
next
  case (2 p dp ds h)
  then show ?case by simp
next
  case (3 p dp b ds h)
  have l: "a < length (h[b := tagDate p dp (h ! b)])" using 3 by simp
  have d: "distinct (filter (\<lambda>x. x \<noteq> None) ds)" and nb: "Some b \<notin> set ds"
    using "3.prems"(2) by auto
  show ?case using "3.IH"[OF l d] nb "3.prems"(1)
    by (cases "a = b") (auto simp: nth_list_update)
qed

lemma tagDate_fields:
  "ld_month (tagDate p dp d) = ld_month d" "ld_date (tagDate p dp d) = ld_date d"
  "ld_grayOut (tagDate p dp d) = ld_grayOut d"
  by (simp_all add: tagDate_def Let_def)

lemma display_overfull_state:
  assumes g1: "getDatesWithCache cal y m s = (VArr (a # as), s1)"
    and idx: "findIndex (\<lambda>d. dvalue d = ld_day (heap s1 ! a)) (getDays cal) > 0"
    and idx_le: "findIndex (\<lambda>d. dvalue d = ld_day (heap s1 ! a)) (getDays cal) \<le> int (length ps)"
    and prev: "calcPrevLocalMonth y m (getMonths cal y) = Inr prev"
    and g2: "getDatesWithCache cal (ym_year prev) (ym_month prev) s1 = (VArr ps, s2)"
    and full: "MAX_COUNT_DATES_IN_DATE_PICKER cfg \<le> int (length ps) + int (length (a # as))"
  shows "getLocalDatesToDisplay cfg p cal y m dp s
     = (Inr (map Some ps @ map Some (a # as)),
        s2\<lparr>heap := tagAll p dp (map Some ps @ map Some (a # as))
                      (fold markGrayOut (rev ps) (heap s2))\<rparr>)"
proof -
  have ds: "displayStart cal y m (a # as) s1
      = (Inr (map Some ps @ map Some (a # as)),
         s2\<lparr>heap := fold markGrayOut (rev ps) (heap s2)\<rparr>)"
    using idx idx_le prev g2 by (simp add: displayStart_def Let_def fillStart_all padStart_eq)
  have dt: "displayTail cfg cal y m (map Some ps @ map Some (a # as))
        (s2\<lparr>heap := fold markGrayOut (rev ps) (heap s2)\<rparr>)
        = (Inr (map Some ps @ map Some (a # as)),
           s2\<lparr>heap := fold markGrayOut (rev ps) (heap s2)\<rparr>)"
    using full by (simp add: displayTail_def Let_def padTail_eq)
  show ?thesis
    unfolding getLocalDatesToDisplay_def Let_def g1 prod.case dates_val.case ds sum.case dt
    by simp
qed

lemma grid_view_append: "grid_view h (xs @ ys) = grid_view h xs @ grid_view h ys"
  by (simp add: grid_view_def)

lemma grid_view_fresh:
  assumes "\<And>k. k < n \<Longrightarrow> (ld_month (h ! (b + k)), ld_date (h ! (b + k)), ld_grayOut (h ! (b + k))) = f k"
  shows "grid_view h (map Some [b ..< b + n]) = map (\<lambda>k. Some (f k)) [0 ..< n]"
  by (rule nth_equalityI) (simp_all add: grid_view_def assms)

text \<open>
  C10 fails on the code. In the sample calendar February 2018 has 28 dates and starts
  on a Thursday, the day of index 4, so 4 + 28 is within the 42 cells of the date
  picker. \<open>_getLocalDatesToDisplay\<close> returns 59 entries: the copies of all 31 dates of
  January (the objects 87 to 117 of the store), each marked gray, before those of
  the 28 dates of February (the objects 28 to 55), and no date of March. The condition of the loop
  over \<open>prevDates\<close> is \<open>emptyCountInStart > 0, i >= 0\<close>, whose value is that of
  \<open>i >= 0\<close>.
\<close>

theorem display_grid_overfull:
  "sample_getDates 0 2018 1 = DArray (map (\<lambda>d. sample_date 2018 1 (int d)) [1 ..< 29])
   \<and> findIndex (\<lambda>d. dvalue d = ld_day (sample_date 2018 1 1)) (getDays sample_calendar) = 4
   \<and> MAX_COUNT_DATES_IN_DATE_PICKER sample_config = 42
   \<and> fst (getLocalDatesToDisplay sample_config sample_platform sample_calendar 2018 1 None
            sample_input)
       = Inr (map Some ([87 ..< 118] @ [28 ..< 56]))
   \<and> length ([87 ..< 118] @ [28 ..< 56]) = (59 :: nat)
   \<and> grid_view
        (heap (snd (getLocalDatesToDisplay sample_config sample_platform sample_calendar 2018 1
                      None sample_input)))
        (map Some ([87 ..< 118] @ [28 ..< 56]))
       = map (\<lambda>k. Some (0, int k + 1, True)) [0 ..< 31]
         @ map (\<lambda>k. Some (1, int k + 1, False)) [0 ..< 28]"
proof -
  let ?feb = "map (\<lambda>d. sample_date 2018 1 (int d)) [1 ..< 29]"
  let ?jan = "map (\<lambda>d. sample_date 2018 0 (int d)) [1 ..< 32]"
  let ?dates = "map Some [87 ..< 118] @ map Some (28 # [29 ..< 56])"
  have fr: "heap sample_input = []" "datesCache sample_input = Map.empty"
    "getDatesCalls sample_input = 0"
    using constructor_fresh[of sample_platform sample_calendar sample_params]
    by (simp_all add: sample_input_def)
  have l1: "cache_lookup sample_input 2018 1 = VUndefined"
    by (simp add: cache_lookup_def fr)
  have d1: "getDates sample_calendar (getDatesCalls sample_input) 2018 1 = DArray ?feb"
    by (simp add: sample_calendar_def sample_feb)
  define s1 where "s1 = sample_input\<lparr>getDatesCalls := Suc 0, heap := ?feb @ ?feb,
      datesCache := (Map.empty :: int \<times> int \<Rightarrow> dates_val option)((2018, 1) \<mapsto> VArr [0 ..< 28])\<rparr>"
  have g1: "getDatesWithCache sample_calendar 2018 1 sample_input = (VArr (28 # [29 ..< 56]), s1)"
    unfolding getDatesWithCache_fresh[OF l1 d1] s1_def
    by (simp add: fr upt_conv_Cons[of 28 56])
  have h28: "heap s1 ! 28 = sample_date 2018 1 1"
    by (simp add: s1_def nth_append)
  have i: "findIndex (\<lambda>d. dvalue d = ld_day (heap s1 ! 28)) (getDays sample_calendar) = 4"
    unfolding h28 sample_feb_first_day by (simp add: sample_calendar_def sample_days_index)
  have prev: "calcPrevLocalMonth 2018 1 (getMonths sample_calendar 2018)
      = Inr \<lparr>ym_year = 2018, ym_month = 0\<rparr>"
    by (simp add: sample_calendar_def sample_prev_of_feb)
  have l2: "cache_lookup s1 2018 0 = VUndefined"
    by (simp add: cache_lookup_def s1_def)
  have d2: "getDates sample_calendar (getDatesCalls s1) 2018 0 = DArray ?jan"
    by (simp add: sample_calendar_def sample_jan)
  have len1: "length (heap s1) = 56" by (simp add: s1_def)
  define s2 where "s2 = s1\<lparr>getDatesCalls := Suc (getDatesCalls s1),
         heap := heap s1 @ ?jan @ ?jan,
         datesCache := (datesCache s1)((2018, 0) \<mapsto> VArr [length (heap s1) ..< length (heap s1) + length ?jan])\<rparr>"
  have g2: "getDatesWithCache sample_calendar 2018 0 s1 = (VArr [87 ..< 118], s2)"
    unfolding getDatesWithCache_fresh[OF l2 d2] s2_def by (simp add: len1)
  have g2': "getDatesWithCache sample_calendar
      (ym_year \<lparr>ym_year = 2018, ym_month = 0\<rparr>) (ym_month \<lparr>ym_year = 2018, ym_month = 0\<rparr>) s1
      = (VArr [87 ..< 118], s2)"
    using g2 by simp
  have cfg: "MAX_COUNT_DATES_IN_DATE_PICKER sample_config = 42" by (simp add: sample_config_def)
  have r: "getLocalDatesToDisplay sample_config sample_platform sample_calendar 2018 1 None
            sample_input
      = (Inr ?dates,
         s2\<lparr>heap := tagAll sample_platform None ?dates
                       (fold markGrayOut (rev [87 ..< 118]) (heap s2))\<rparr>)"
    by (rule display_overfull_state[OF g1 _ _ prev g2']) (simp_all add: i cfg)
  have e: "28 # [29 ..< 56] = [28 ..< 56]" by (simp add: upt_conv_Cons[of 28 56])
  have i': "findIndex (\<lambda>d. dvalue d = ld_day (sample_date 2018 1 1)) (getDays sample_calendar) = 4"
    using i h28 by simp
  have h2: "heap s2 = ?feb @ ?feb @ ?jan @ ?jan" by (simp add: s2_def s1_def)
  have len2: "length (heap s2) = 118" by (simp add: h2)
  let ?h = "tagAll sample_platform None ?dates (fold markGrayOut (rev [87 ..< 118]) (heap s2))"
  have dz: "distinct ([87 ..< 118] @ [28 ..< 56 :: nat])"
    by (auto simp del: upt_rec_numeral)
  have fz: "filter (\<lambda>x. x \<noteq> None) (map Some zs) = map Some zs" for zs :: "nat list"
    by (induction zs) simp_all
  have dist: "distinct (filter (\<lambda>x. x \<noteq> None) ?dates)"
    unfolding e map_append[symmetric] fz using dz
    by (simp only: distinct_map inj_Some inj_on_def, simp del: upt_rec_numeral)
  have nth: "?h ! a = (if Some a \<in> set ?dates
      then tagDate sample_platform None (fold markGrayOut (rev [87 ..< 118]) (heap s2) ! a)
      else fold markGrayOut (rev [87 ..< 118]) (heap s2) ! a)" if "a < 118" for a
    by (rule nth_tagAll[OF _ dist]) (simp only: length_marks_eq len2 that)
  have jan: "(ld_month (?h ! (87 + k)), ld_date (?h ! (87 + k)), ld_grayOut (?h ! (87 + k)))
      = (0, int k + 1, True)" if "k < 31" for k
  proof -
    have a: "87 + k < 118" using that by simp
    have m: "fold markGrayOut (rev [87 ..< 118]) (heap s2) ! (87 + k)
        = (heap s2 ! (87 + k))\<lparr>ld_grayOut := True\<rparr>"
      using that by (subst nth_marks) (simp_all add: len2 del: upt_rec_numeral)
    have o: "heap s2 ! (87 + k) = sample_date 2018 0 (int k + 1)"
      using that by (simp add: h2 nth_append add.commute del: upt_rec_numeral)
    have mem: "Some (87 + k) \<in> set ?dates"
      using that unfolding e by (simp del: upt_rec_numeral)
    show ?thesis unfolding nth[OF a] m o using mem
      by (simp add: tagDate_fields sample_date_def Let_def del: upt_rec_numeral)
  qed
  have feb: "(ld_month (?h ! (28 + k)), ld_date (?h ! (28 + k)), ld_grayOut (?h ! (28 + k)))
      = (1, int k + 1, False)" if "k < 28" for k
  proof -
    have a: "28 + k < 118" using that by simp
    have m: "fold markGrayOut (rev [87 ..< 118]) (heap s2) ! (28 + k) = heap s2 ! (28 + k)"
      using that by (subst nth_marks) (simp_all add: len2 del: upt_rec_numeral)
    have o: "heap s2 ! (28 + k) = sample_date 2018 1 (int k + 1)"
      using that by (simp add: h2 nth_append add.commute del: upt_rec_numeral)
    have mem: "Some (28 + k) \<in> set ?dates"
      using that unfolding e by (simp del: upt_rec_numeral)
    show ?thesis unfolding nth[OF a] m o using mem
      by (simp add: tagDate_fields sample_date_def Let_def del: upt_rec_numeral)
  qed
  have gv: "grid_view ?h (map Some ([87 ..< 118] @ [28 ..< 56]))
      = map (\<lambda>k. Some (0, int k + 1, True)) [0 ..< 31]
        @ map (\<lambda>k. Some (1, int k + 1, False)) [0 ..< 28]"
    unfolding map_append grid_view_append
    using grid_view_fresh[of 31 ?h 87 "\<lambda>k. (0, int k + 1, True)", OF jan]
      grid_view_fresh[of 28 ?h 28 "\<lambda>k. (1, int k + 1, False)", OF feb]
    by (simp del: upt_rec_numeral)
  show ?thesis using r i' cfg sample_feb[of 0] gv unfolding e
    by (simp del: upt_rec_numeral)
qed

subsection \<open>Malformed values and early years\<close>

text \<open>
  C8 fails on the code. For a text \<open>str\<close> that \<open>JSON.parse\<close> rejects,
  \<open>_unserializeValue\<close> returns \<open>null\<close>, and then the handlers throw: a click on the
  left button of the date picker whose value is \<open>str\<close> reads \<open>value.year\<close> of
  \<open>null\<close> in \<open>_onPanelButtonClick\<close>, and a click on a cell of the date picker whose
  value is \<open>str\<close> does the same in \<open>_onPick\<close>. Both leave the state as it was.
\<close>

theorem malformed_value_throws:
  assumes "JSON_parse p str = None" and "str \<noteq> []"
  shows "unserializeValue p (Some str) = JNull
       \<and> onPickerClick cfg p cal \<lparr>p_id = ID_DATE_PICKER cfg, p_value = Some str\<rparr>
           \<lparr>t_classList = [''caLINEdar-panel__btn'', ''left-btn''], t_tagName = ''DIV'',
            t_value = None\<rparr> s
         = (Inl TypeError, s)
       \<and> onPickerClick cfg p cal \<lparr>p_id = ID_DATE_PICKER cfg, p_value = pv\<rparr>
           \<lparr>t_classList = [''caLINEdar-table-cell''], t_tagName = ''TD'', t_value = Some str\<rparr> s
         = (Inl TypeError, s)"
proof -
  have u: "unserializeValue p (Some str) = JNull"
    using assms(1) by (simp add: unserializeValue_def)
  have td: "toLowerCase ''TD'' = ''td''"
    by code_simp
  have a: "onPickerClick cfg p cal \<lparr>p_id = ID_DATE_PICKER cfg, p_value = Some str\<rparr>
           \<lparr>t_classList = [''caLINEdar-panel__btn'', ''left-btn''], t_tagName = ''DIV'',
            t_value = None\<rparr> s
         = (Inl TypeError, s)"
    by (simp add: onPickerClick_def onPanelButtonClick_def Let_def u args2_def get_int_def
        bindE_def)
  have b: "onPickerClick cfg p cal \<lparr>p_id = ID_DATE_PICKER cfg, p_value = pv\<rparr>
           \<lparr>t_classList = [''caLINEdar-table-cell''], t_tagName = ''TD'', t_value = Some str\<rparr> s
         = (Inl TypeError, s)"
    using assms(2)
    by (simp add: onPickerClick_def onPick_def Let_def u td args3_def get_int_def bindE_def)
  from u a b show ?thesis by simp
qed

theorem malformed_value_throws_witness:
  "JSON_parse sample_platform ''{bad'' = None
   \<and> unserializeValue sample_platform (Some ''{bad'') = JNull
   \<and> onPickerClick sample_config sample_platform sample_calendar
        \<lparr>p_id = ID_DATE_PICKER sample_config, p_value = Some ''{bad''\<rparr>
        \<lparr>t_classList = [''caLINEdar-panel__btn'', ''left-btn''], t_tagName = ''DIV'',
         t_value = None\<rparr> sample_input
      = (Inl TypeError, sample_input)"
proof -
  have h: "JSON_parse sample_platform ''{bad'' = None"
    by (simp add: sample_platform_def parse_known_def json_year_month_def)
  have n: "''{bad'' \<noteq> []" by simp
  from malformed_value_throws[OF h n, where cfg = sample_config and cal = sample_calendar
      and s = sample_input] h
  show ?thesis by simp
qed

lemma div_bounds:
  fixes x k :: int
  assumes "0 < k"
  shows "k * (x div k) \<le> x" "x < k * (x div k) + k"
proof -
  have "x = k * (x div k) + x mod k" by simp
  moreover have "0 \<le> x mod k" "x mod k < k" using assms by simp_all
  ultimately show "k * (x div k) \<le> x" "x < k * (x div k) + k" by linarith+
qed

lemma div_unique_int:
  fixes x k q :: int
  assumes "0 < k" "k * q \<le> x" "x < k * q + k"
  shows "x div k = q"
  by (rule int_div_pos_eq[of x k q "x - k * q"]) (use assms in simp_all)

lemma civil_yoe:
  fixes doe :: int
  assumes "0 \<le> doe" "doe < 146097"
  defines "n100 \<equiv> min 3 (doe div 36524)"
  defines "d2 \<equiv> doe - n100 * 36524"
  defines "n4 \<equiv> d2 div 1461"
  defines "d3 \<equiv> d2 - n4 * 1461"
  defines "n1 \<equiv> min 3 (d3 div 365)"
  defines "doy \<equiv> d3 - n1 * 365"
  defines "yoe \<equiv> n100 * 100 + n4 * 4 + n1"
  shows "0 \<le> yoe" "yoe \<le> 399" "0 \<le> doy" "doy \<le> 365"
    "yoe * 365 + yoe div 4 - yoe div 100 + doy = doe"
proof -
  note b1 = div_bounds[of 36524 doe]
  have n100: "0 \<le> n100" "n100 \<le> 3" using assms(1) b1 unfolding n100_def by auto
  have d2: "0 \<le> d2" "d2 \<le> 36524" using b1 assms(1,2) unfolding d2_def n100_def by auto
  note b2 = div_bounds[of 1461 d2]
  have n4: "0 \<le> n4" "n4 \<le> 24" using d2 b2 unfolding n4_def by auto
  have d3: "0 \<le> d3" "d3 \<le> 1460" using b2 unfolding d3_def n4_def by auto
  note b3 = div_bounds[of 365 d3]
  have n1: "0 \<le> n1" "n1 \<le> 3" using d3 b3 unfolding n1_def by auto
  have doy: "0 \<le> doy" "doy \<le> 365" using b3 d3 unfolding doy_def n1_def by auto
  have q4: "yoe div 4 = n100 * 25 + n4"
    by (rule div_unique_int) (use n1 in \<open>auto simp: yoe_def\<close>)
  have q100: "yoe div 100 = n100"
    by (rule div_unique_int) (use n1 n4 in \<open>auto simp: yoe_def\<close>)
  show "0 \<le> yoe" "yoe \<le> 399" using n100 n4 n1 by (auto simp: yoe_def)
  show "0 \<le> doy" "doy \<le> 365" by (rule doy)+
  show "yoe * 365 + yoe div 4 - yoe div 100 + doy = doe"
    unfolding q4 q100 by (simp add: yoe_def doy_def d3_def d2_def)
qed

lemma civil_round_trip:
  assumes c: "civil_from_days z = (y, m, d)"
  shows "days_from_civil y m d = z \<and> 1 \<le> m \<and> m \<le> 12"
proof -
  define z' where "z' = z + 719468"
  define era where "era = z' div 146097"
  define doe where "doe = z' - era * 146097"
  define n100 where "n100 = min 3 (doe div 36524)"
  define d2 where "d2 = doe - n100 * 36524"
  define n4 where "n4 = d2 div 1461"
  define d3 where "d3 = d2 - n4 * 1461"
  define n1 where "n1 = min 3 (d3 div 365)"
  define doy where "doy = d3 - n1 * 365"
  define yoe where "yoe = n100 * 100 + n4 * 4 + n1"
  define mp where "mp = (5 * doy + 2) div 153"
  note be = div_bounds[of 146097 z']
  have doe: "0 \<le> doe" "doe < 146097" using be unfolding doe_def era_def by auto
  note y = civil_yoe[OF doe, folded n100_def, folded d2_def, folded n4_def, folded d3_def,
      folded n1_def, folded doy_def, folded yoe_def]
  note bm = div_bounds[of 153 "5 * doy + 2"]
  have mp: "0 \<le> mp" "mp \<le> 11" using y(3,4) bm unfolding mp_def by auto
  have m: "m = (if mp < 10 then mp + 3 else mp - 9)"
    and yy: "y = (if m \<le> 2 then yoe + era * 400 + 1 else yoe + era * 400)"
    and d: "d = doy - (153 * mp + 2) div 5 + 1"
    using c unfolding civil_from_days_def Let_def z'_def[symmetric] era_def[symmetric]
      doe_def[symmetric] n100_def[symmetric] d2_def[symmetric] n4_def[symmetric]
      d3_def[symmetric] n1_def[symmetric] doy_def[symmetric] yoe_def[symmetric]
      mp_def[symmetric]
    by auto
  have mr: "1 \<le> m" "m \<le> 12" using m mp by (auto split: if_splits)
  have y1: "(if m \<le> 2 then y - 1 else y) = yoe + era * 400" using yy by auto
  have e: "(yoe + era * 400) div 400 = era"
    by (rule div_unique_int) (use y(1,2) in auto)
  have mp': "(if m > 2 then m - 3 else m + 9) = mp" using m mp by (auto split: if_splits)
  have "days_from_civil y m d = era * 146097 + (yoe * 365 + yoe div 4 - yoe div 100 + doy) - 719468"
    unfolding days_from_civil_def Let_def y1 e mp' d by simp
  also have "\<dots> = z" unfolding y(5) by (simp add: doe_def z'_def)
  finally show ?thesis using mr by simp
qed

lemma MakeDay_civil:
  assumes c: "civil_from_days z = (y, m, d)"
  shows "MakeDay y (m - 1) d = z"
proof -
  from civil_round_trip[OF c] have r: "days_from_civil y m d = z" and m: "1 \<le> m" "m \<le> 12"
    by simp_all
  have q: "(m - 1) div 12 = 0" by (rule div_unique_int) (use m in auto)
  have md: "(m - 1) mod 12 = m - 1" using m by simp
  have lin: "days_from_civil y m 1 + d - 1 = days_from_civil y m d"
    by (simp add: days_from_civil_def Let_def)
  show ?thesis unfolding MakeDay_def q md using lin r by simp
qed

text \<open>
  The alignment of \<open>setDate\<close> outside the years 0 to 99. Let the argument be a valid
  date, or an integer whose thousandfold is a time value, let the year of its local
  day not be one of 0 to 99 and the midnight of that day be a time value, and let
  the calendar convert the day. Then \<open>setDate\<close> returns true and \<open>getDate()\<close> is the
  midnight of the local day of the argument, in seconds.
\<close>

lemma setDate_getDate_aligned:
  assumes a: "date = ADate (Some t) \<or> (date = AInt n \<and> t = n * 1000 \<and> \<bar>t\<bar> \<le> 8640000000000000)"
    and c: "civil_from_days ((t + LocalTZA p) div msPerDay) = (y, m, d)"
    and y: "\<not> (0 \<le> y \<and> y \<le> 99)"
    and clip: "\<bar>(t + LocalTZA p) div msPerDay * msPerDay - LocalTZA p\<bar> \<le> 8640000000000000"
    and conv: "convertJSDate2LocalDate cal (Num y) (Num (m - 1)) (Num d) = Some l"
  shows "fst (setDate p cal date s)
       \<and> getDate (snd (setDate p cal date s))
           = Some (Num (((t + LocalTZA p) div msPerDay * msPerDay - LocalTZA p) div 1000))"
proof -
  let ?z = "(t + LocalTZA p) div msPerDay"
  let ?t' = "?z * msPerDay - LocalTZA p"
  have n0: "(case date of ADate d \<Rightarrow> Some d | AInt n \<Rightarrow> Some (new_Date_ms (n * 1000))
      | AOther \<Rightarrow> None) = Some (Some t)"
    using a by (auto simp: new_Date_ms_def TimeClip_def)
  have f: "Date_getFullYear p (Some t) = Num y" "Date_getMonth p (Some t) = Num (m - 1)"
    "Date_getDate p (Some t) = Num d"
    using c by (simp_all add: Date_getFullYear_def Date_getMonth_def Date_getDate_def)
  have nd: "new_Date_ymd p (Num y) (Num (m - 1)) (Num d) = Some ?t'"
    using y clip MakeDay_civil[OF c] by (auto simp: new_Date_ymd_def Let_def TimeClip_def)
  have z': "(?t' + LocalTZA p) div msPerDay = ?z" by (simp add: msPerDay_def)
  have f': "Date_getFullYear p (Some ?t') = Num y" "Date_getMonth p (Some ?t') = Num (m - 1)"
    "Date_getDate p (Some ?t') = Num d"
    using c unfolding Date_getFullYear_def Date_getMonth_def Date_getDate_def option.case z'
    by simp_all
  show ?thesis
    unfolding setDate_def Let_def n0
    by (simp add: f nd f' conv getDate_def Date_getTime_seconds_def)
qed

text \<open>
  C1 fails on the code for a date in the years 0 to 99. With UTC as the local time
  zone, the unix time -60006960000 is the start of 15 June of the year 68, a date
  the calendar converts. \<open>setDate\<close> aligns it with \<open>new Date(68, 5, 15)\<close>, which is
  15 June 1968, returns true, and \<open>getDate()\<close> then returns -48816000, the start
  of 15 June 1968.
\<close>

theorem setDate_year_below_100:
  "civil_from_days ((- 60006960000 * 1000 + LocalTZA sample_platform) div msPerDay) = (68, 6, 15)
   \<and> days_from_civil 68 6 15 * 86400 = - 60006960000
   \<and> convertJSDate2LocalDate wide_calendar (Num 68) (Num 5) (Num 15) \<noteq> None
   \<and> fst (setDate sample_platform wide_calendar (AInt (- 60006960000)) sample_input) = True
   \<and> getDate (snd (setDate sample_platform wide_calendar (AInt (- 60006960000)) sample_input))
       = Some (Num (- 48816000))
   \<and> civil_from_days (- 48816000 div 86400) = (1968, 6, 15)"
  by code_simp

end
